theory Spec2Isabelle
  imports Main "HOL-Library.Word"
begin

section \<open>The HHVM debugger adapter (src/debugger.ts)\<close>

text \<open>
  The adapter is one object, \<^verbatim>\<open>HHVMDebuggerWrapper\<close>, whose methods run as event
  handlers of a single-threaded event loop. Each method is a function from the wrapper's
  fields to the updated fields; everything a method does to the outside world is appended
  to a trace of effects, in the order the statements run.
\<close>

subsection \<open>Strings and buffers\<close>

text \<open>
  A JavaScript string is a sequence of UTF-16 code units; a \<^verbatim>\<open>Buffer\<close> is a sequence
  of bytes. \<open>js\<close> writes an ASCII literal as a JavaScript string.
\<close>

type_synonym jsstring = "nat list"
type_synonym buffer = "8 word list"

definition js :: "string \<Rightarrow> jsstring" where
  "js s = map of_char s"

text \<open>\<^verbatim>\<open>s.indexOf(pat)\<close>: the first index where \<open>pat\<close> occurs, or -1.\<close>

fun indexOf_from :: "nat \<Rightarrow> jsstring \<Rightarrow> jsstring \<Rightarrow> int" where
  "indexOf_from i pat [] = (if pat = [] then int i else - 1)"
| "indexOf_from i pat (x # xs) =
     (if take (length pat) (x # xs) = pat then int i else indexOf_from (Suc i) pat xs)"

definition indexOf :: "jsstring \<Rightarrow> jsstring \<Rightarrow> int" where
  "indexOf s pat = indexOf_from 0 pat s"

definition NUL :: jsstring where
  "NUL = [0]"

definition TWO_CRLF :: jsstring where
  "TWO_CRLF = [13, 10, 13, 10]"

text \<open>
  \<^verbatim>\<open>chunk.toString()\<close> decodes the bytes of one chunk as UTF-8 on its own. An
  ill-formed or truncated sequence becomes U+FFFD (65533), one for each maximal
  ill-formed part; a code point above U+FFFF becomes a surrogate pair.
\<close>

definition REPLACEMENT :: nat where
  "REPLACEMENT = 65533"

definition is_cont :: "nat \<Rightarrow> nat \<Rightarrow> nat \<Rightarrow> bool" where
  "is_cont lo hi b = (lo \<le> b \<and> b \<le> hi)"

fun utf8_decode :: "nat list \<Rightarrow> jsstring" where
  "utf8_decode [] = []"
| "utf8_decode (b # bs) =
     (if b < 128 then b # utf8_decode bs
      else if 194 \<le> b \<and> b \<le> 223 then
        (case bs of
           c # r \<Rightarrow> if is_cont 128 191 c
                    then ((b mod 32) * 64 + c mod 64) # utf8_decode r
                    else REPLACEMENT # utf8_decode bs
         | [] \<Rightarrow> [REPLACEMENT])
      else if 224 \<le> b \<and> b \<le> 239 then
        (let lo = (if b = 224 then 160 else 128); hi = (if b = 237 then 159 else 191) in
         case bs of
           c # r \<Rightarrow>
             if is_cont lo hi c then
               (case r of
                  d # r' \<Rightarrow> if is_cont 128 191 d
                            then ((b mod 16) * 4096 + (c mod 64) * 64 + d mod 64) # utf8_decode r'
                            else REPLACEMENT # utf8_decode r
                | [] \<Rightarrow> [REPLACEMENT])
             else REPLACEMENT # utf8_decode bs
         | [] \<Rightarrow> [REPLACEMENT])
      else if 240 \<le> b \<and> b \<le> 244 then
        (let lo = (if b = 240 then 144 else 128); hi = (if b = 244 then 143 else 191) in
         case bs of
           c # r \<Rightarrow>
             if is_cont lo hi c then
               (case r of
                  d # r' \<Rightarrow>
                    if is_cont 128 191 d then
                      (case r' of
                         e # r'' \<Rightarrow>
                           if is_cont 128 191 e then
                             (let cp = (b mod 8) * 262144 + (c mod 64) * 4096
                                       + (d mod 64) * 64 + e mod 64 - 65536
                              in (55296 + cp div 1024) # (56320 + cp mod 1024) # utf8_decode r'')
                           else REPLACEMENT # utf8_decode r'
                       | [] \<Rightarrow> [REPLACEMENT])
                    else REPLACEMENT # utf8_decode r
                | [] \<Rightarrow> [REPLACEMENT])
             else REPLACEMENT # utf8_decode bs
         | [] \<Rightarrow> [REPLACEMENT])
      else REPLACEMENT # utf8_decode bs)"

definition toString :: "buffer \<Rightarrow> jsstring" where
  "toString chunk = utf8_decode (map unat chunk)"

subsection \<open>Messages\<close>

text \<open>
  \<^verbatim>\<open>DebugProtocol.Request\<close>, with the fields the adapter reads: \<^verbatim>\<open>seq\<close>,
  \<^verbatim>\<open>command\<close> (the empty string is falsy) and, of \<^verbatim>\<open>arguments\<close>, \<^verbatim>\<open>port\<close>,
  \<^verbatim>\<open>noDebug\<close> (its truthiness) and \<^verbatim>\<open>cwd\<close>. The remaining content of
  \<^verbatim>\<open>arguments\<close> is carried along unread in \<open>body\<close>.
\<close>

datatype port_arg = PortNumber int | PortString jsstring

record request =
  seq :: int
  command :: jsstring
  port :: "port_arg option"
  noDebug :: bool
  cwd :: "jsstring option"
  body :: jsstring

text \<open>\<^verbatim>\<open>net.Socket\<close> errors: \<^verbatim>\<open>error.code\<close> and \<^verbatim>\<open>error.toString()\<close>.\<close>

record socket_error =
  code :: jsstring
  text_of :: jsstring

datatype category = Stdout | Stderr

text \<open>
  What \<^verbatim>\<open>writeOutputWithHeader\<close> frames for the client. \<open>Forwarded n m\<close> is the object
  parsed from the target's text \<open>m\<close> with its \<^verbatim>\<open>seq\<close> set to \<open>n\<close>; \<open>Unnumbered m\<close>
  is the array parsed from \<open>m\<close>, whose text has no \<^verbatim>\<open>seq\<close>; \<open>Response\<close> is
  \<^verbatim>\<open>{seq, type: 'response', request_seq, success, command}\<close>; \<open>OutputEvent\<close> is the
  \<^verbatim>\<open>output\<close> event with its category and text. \<open>frame_seq\<close> is the \<^verbatim>\<open>seq\<close> that
  the written text carries, if it carries one.
\<close>

datatype frame =
  Forwarded nat jsstring
| Unnumbered jsstring
| Response nat int bool jsstring
| OutputEvent nat category jsstring

fun frame_seq :: "frame \<Rightarrow> nat option" where
  "frame_seq (Forwarded n m) = Some n"
| "frame_seq (Unnumbered m) = None"
| "frame_seq (Response n r ok c) = Some n"
| "frame_seq (OutputEvent n c t) = Some n"

text \<open>The streams a write callback can be bound to.\<close>

datatype stream = SocketStream nat | ChildStdin nat | ChildFd3 nat

datatype exit_arg = ExitNumber int | ExitErrorCode jsstring | ExitChildCode "int option"

datatype exn =
  InvalidPort
| PortRangeError
| FramingError
| JsonSyntaxError jsstring
| TypeError_stdio3

datatype halt = Exit exit_arg | Uncaught exn

datatype log_entry =
  Started
| LogInvalidPort
| Attaching int
| SocketConnected
| SocketMessage jsstring
| SocketClosed
| SocketDisconnected
| SocketFailed jsstring
| Launched
| ParsedRequest request

datatype diagnostic =
  TargetClosed
| CommunicationError jsstring
| SpawnError jsstring
| TargetParseError jsstring
| TargetTypeError jsstring

text \<open>
  Effects, in the order they happen. \<open>ToTarget st r\<close> is
  \<^verbatim>\<open>write(JSON.stringify(r) + '\0', 'utf8')\<close> on stream \<open>st\<close>; \<open>ToClient f\<close> is the two
  writes of \<^verbatim>\<open>writeOutputWithHeader\<close> on standard output; \<open>Spawned n k d\<close> is the spawn
  of child \<open>n\<close> with \<open>k\<close> piped streams in directory \<open>d\<close> (\<open>None\<close>:
  \<^verbatim>\<open>process.cwd()\<close>); \<open>Connecting n p\<close> is \<^verbatim>\<open>socket.connect\<close> of socket \<open>n\<close> to
  port \<open>p\<close> of localhost; \<open>TimerSet n ms\<close> is \<^verbatim>\<open>setTimeout\<close> of timer \<open>n\<close>.
\<close>

datatype effect =
  ToTarget stream request
| ToClient frame
| ToStderr diagnostic
| Log log_entry
| Spawned nat nat "jsstring option"
| Connecting nat int
| TimerSet nat nat

subsection \<open>The wrapper's state\<close>

text \<open>
  The fields of \<^verbatim>\<open>HHVMDebuggerWrapper\<close>, then what the event loop holds for it: the
  sockets created by \<^verbatim>\<open>attachTarget\<close> (each with the attach message and retry count
  its handlers close over, and whether its \<^verbatim>\<open>once('connect')\<close> handler has run), the
  pending retry timers, the number of spawned children, and the effects so far.
\<close>

record state =
  sequenceNumber :: nat
  currentOutputData :: jsstring
  currentInputData :: jsstring
  currentContentLength :: nat
  bufferedRequests :: "request list"
  debugging :: bool
  debuggerWriteCallback :: "stream option"
  sockets :: "(request \<times> nat \<times> bool) list"
  timers :: "(request \<times> nat) option list"
  children :: nat
  effects :: "effect list"

text \<open>The constructor.\<close>

definition init :: state where
  "init = \<lparr> sequenceNumber = 0, currentOutputData = [], currentInputData = [],
            currentContentLength = 0, bufferedRequests = [], debugging = False,
            debuggerWriteCallback = None, sockets = [], timers = [], children = 0,
            effects = [] \<rparr>"

text \<open>
  A handler either returns, with the new state, or ends the process: \<^verbatim>\<open>process.exit\<close>,
  or an exception that nothing catches. Of a process that has ended only the reason and
  the effects it had remain.
\<close>

type_synonym dead = "halt \<times> effect list"
type_synonym outcome = "dead + state"

definition emit :: "effect \<Rightarrow> state \<Rightarrow> state" where
  "emit e s = s\<lparr>effects := effects s @ [e]\<rparr>"

definition die :: "halt \<Rightarrow> state \<Rightarrow> dead + 'a" where
  "die h s = Inl (h, effects s)"

subsection \<open>Writing to the client\<close>

text \<open>
  \<^verbatim>\<open>writeResponseMessage\<close> and \<^verbatim>\<open>writeOutputEvent\<close>: both take
  \<^verbatim>\<open>++this.sequenceNumber\<close> as the message's \<^verbatim>\<open>seq\<close>.
\<close>

definition writeResponseMessage :: "int \<Rightarrow> bool \<Rightarrow> jsstring \<Rightarrow> state \<Rightarrow> state" where
  "writeResponseMessage request_seq success cmd s =
     (let n = sequenceNumber s + 1
      in emit (ToClient (Response n request_seq success cmd)) (s\<lparr>sequenceNumber := n\<rparr>))"

definition writeOutputEvent :: "category \<Rightarrow> jsstring \<Rightarrow> state \<Rightarrow> state" where
  "writeOutputEvent eventType message s =
     (let n = sequenceNumber s + 1
      in emit (ToClient (OutputEvent n eventType message)) (s\<lparr>sequenceNumber := n\<rparr>))"

subsection \<open>Facts about \<open>indexOf\<close>\<close>

lemma indexOf_from_range:
  "indexOf_from i pat s = - 1 \<or>
   (int i \<le> indexOf_from i pat s \<and> indexOf_from i pat s + int (length pat) \<le> int i + int (length s))"
proof (induction s arbitrary: i)
  case Nil
  then show ?case by simp
next
  case (Cons x xs)
  show ?case
  proof (cases "take (length pat) (x # xs) = pat")
    case True
    then have "length (take (length pat) (x # xs)) = length pat" by simp
    then have "length pat \<le> length (x # xs)" by simp
    with True show ?thesis by simp
  next
    case False
    with Cons.IH [of "Suc i"] show ?thesis by auto
  qed
qed

lemma indexOf_bound:
  "0 \<le> indexOf s pat \<Longrightarrow> nat (indexOf s pat) + length pat \<le> length s"
  using indexOf_from_range [of 0 pat s] by (auto simp: indexOf_def)

lemma indexOf_from_shift:
  "indexOf_from i pat s = (if indexOf_from 0 pat s = - 1 then - 1 else int i + indexOf_from 0 pat s)"
proof (induction s arbitrary: i)
  case Nil
  then show ?case by simp
next
  case (Cons x xs)
  show ?case
    using Cons.IH [of "Suc i"] Cons.IH [of "Suc 0"] indexOf_from_range [of 0 pat xs]
    by auto
qed

lemma indexOf_Cons:
  "indexOf (x # xs) pat =
     (if take (length pat) (x # xs) = pat then 0
      else if indexOf xs pat = - 1 then - 1 else 1 + indexOf xs pat)"
  using indexOf_from_shift [of "Suc 0" pat xs] by (simp add: indexOf_def)

lemma indexOf_Nil: "indexOf [] pat = (if pat = [] then 0 else - 1)"
  by (simp add: indexOf_def)

subsection \<open>Messages from the target\<close>

text \<open>
  \<^verbatim>\<open>JSON.parse\<close> belongs to the platform. Of the text of a message from the target
  the wrapper needs to know whether it parses and, if it does, to what: an object, an
  array, or one of \<^verbatim>\<open>null\<close>, a number, a string, a boolean.
\<close>

datatype json_kind = NotJson | JsonObject | JsonArray | JsonOther

text \<open>
  \<^verbatim>\<open>processDebuggerMessage\<close>. The loop runs while the first NUL of the buffer is at an
  index above 0. In the \<^verbatim>\<open>try\<close> block, \<^verbatim>\<open>JSON.parse\<close> throws on a text that is not
  JSON, before the counter is touched. Otherwise \<^verbatim>\<open>++this.sequenceNumber\<close> is
  evaluated and assigned to \<^verbatim>\<open>obj.seq\<close>: an object then carries the number in the
  text written to the client; an array takes the property, but \<^verbatim>\<open>JSON.stringify\<close>
  leaves it out, so the text written has no \<^verbatim>\<open>seq\<close>; on the other values the
  assignment throws a \<^verbatim>\<open>TypeError\<close> (the module is strict code) after the counter has
  moved. Both exceptions end in the \<^verbatim>\<open>catch\<close>, which writes to standard error.
\<close>

definition deliver_message :: "(jsstring \<Rightarrow> json_kind) \<Rightarrow> jsstring \<Rightarrow> state \<Rightarrow> state" where
  "deliver_message kind message s =
     (case kind message of
        NotJson \<Rightarrow> emit (ToStderr (TargetParseError message)) s
      | JsonObject \<Rightarrow>
          (let n = sequenceNumber s + 1
           in emit (ToClient (Forwarded n message)) (s\<lparr>sequenceNumber := n\<rparr>))
      | JsonArray \<Rightarrow>
          (let n = sequenceNumber s + 1
           in emit (ToClient (Unnumbered message)) (s\<lparr>sequenceNumber := n\<rparr>))
      | JsonOther \<Rightarrow>
          (let n = sequenceNumber s + 1
           in emit (ToStderr (TargetTypeError message)) (s\<lparr>sequenceNumber := n\<rparr>)))"

lemma deliver_message_output:
  "currentOutputData (deliver_message kind message s) = currentOutputData s"
  by (simp add: deliver_message_def emit_def Let_def split: json_kind.splits)

function debugger_loop :: "(jsstring \<Rightarrow> json_kind) \<Rightarrow> state \<Rightarrow> state" where
  "debugger_loop kind s =
     (let idx = indexOf (currentOutputData s) NUL in
      if idx > 0 then
        (let message = take (nat idx) (currentOutputData s);
             s1 = deliver_message kind message s
         in debugger_loop kind
              (s1\<lparr>currentOutputData := drop (nat idx + 1) (currentOutputData s1)\<rparr>))
      else s)"
  by pat_completeness auto
termination
proof (relation "measure (\<lambda>(kind, s). length (currentOutputData s))")
  show "wf (measure (\<lambda>(kind, s). length (currentOutputData s)))" by simp
next
  fix kind :: "jsstring \<Rightarrow> json_kind" and s :: state and idx message s1
  assume idx: "idx = indexOf (currentOutputData s) NUL" and pos: "0 < idx"
    and s1: "s1 = deliver_message kind message s"
  have out: "currentOutputData s1 = currentOutputData s"
    by (simp add: s1 deliver_message_output)
  from pos idx indexOf_bound [of "currentOutputData s" NUL]
  have "nat idx + 1 \<le> length (currentOutputData s)" by (simp add: NUL_def)
  then show "((kind, s1\<lparr>currentOutputData := drop (nat idx + 1) (currentOutputData s1)\<rparr>), (kind, s))
        \<in> measure (\<lambda>(kind, s). length (currentOutputData s))"
    by (simp add: out)
qed

declare debugger_loop.simps [simp del]

definition processDebuggerMessage :: "(jsstring \<Rightarrow> json_kind) \<Rightarrow> buffer \<Rightarrow> state \<Rightarrow> state" where
  "processDebuggerMessage kind chunk s =
     debugger_loop kind (s\<lparr>currentOutputData := currentOutputData s @ toString chunk\<rparr>)"

subsection \<open>Numbers in text\<close>

text \<open>
  \<^verbatim>\<open>parseInt(text, 10)\<close>: leading white space is skipped, a sign is read, then the
  longest run of decimal digits; no digit gives \<^verbatim>\<open>NaN\<close>, here \<open>None\<close>. The value is
  exact arithmetic: the rounding of a number beyond 2^53 is not modelled.
\<close>

definition is_digit :: "nat \<Rightarrow> bool" where
  "is_digit c = (48 \<le> c \<and> c \<le> 57)"

definition is_space :: "nat \<Rightarrow> bool" where
  "is_space c = (c \<in> {9, 10, 11, 12, 13, 32, 160, 5760, 8232, 8233, 8239, 8287, 12288, 65279}
                 \<or> (8192 \<le> c \<and> c \<le> 8202))"

definition digits_value :: "jsstring \<Rightarrow> nat" where
  "digits_value ds = foldl (\<lambda>a d. 10 * a + (d - 48)) 0 ds"

definition parseInt :: "jsstring \<Rightarrow> int option" where
  "parseInt t =
     (let u = dropWhile is_space t;
          neg = (u \<noteq> [] \<and> hd u = 45);
          v = (if u \<noteq> [] \<and> (hd u = 45 \<or> hd u = 43) then tl u else u);
          ds = takeWhile is_digit v
      in if ds = [] then None
         else Some (if neg then - int (digits_value ds) else int (digits_value ds)))"

text \<open>
  \<^verbatim>\<open>header.match(CONTENT_LENGTH_PATTERN)\<close>, the pattern being
  \<^verbatim>\<open>Content-Length: (\d+)\<close>: the leftmost place where the literal is followed by a
  digit, and the longest run of digits there (the captured group).
\<close>

definition CONTENT_LENGTH :: jsstring where
  "CONTENT_LENGTH = js ''Content-Length: ''"

fun match_content_length :: "jsstring \<Rightarrow> jsstring option" where
  "match_content_length [] = None"
| "match_content_length (x # xs) =
     (let k = length CONTENT_LENGTH; ds = takeWhile is_digit (drop k (x # xs))
      in if take k (x # xs) = CONTENT_LENGTH \<and> ds \<noteq> [] then Some ds
         else match_content_length xs)"

subsection \<open>Command names\<close>

text \<open>
  \<^verbatim>\<open>s.replace(pat, rep)\<close> with a string pattern replaces the first occurrence;
  \<^verbatim>\<open>s.startsWith(pat)\<close>.
\<close>

definition replace_first :: "jsstring \<Rightarrow> jsstring \<Rightarrow> jsstring \<Rightarrow> jsstring" where
  "replace_first s pat rep =
     (let idx = indexOf s pat
      in if idx < 0 then s else take (nat idx) s @ rep @ drop (nat idx + length pat) s)"

definition startsWith :: "jsstring \<Rightarrow> jsstring \<Rightarrow> bool" where
  "startsWith s pat = (take (length pat) s = pat)"

text \<open>
  \<^verbatim>\<open>translateNuclideRequest\<close>; the result stands for the text
  \<^verbatim>\<open>JSON.stringify(requestMsg)\<close> that both branches return.
\<close>

definition translateNuclideRequest :: "request \<Rightarrow> request" where
  "translateNuclideRequest requestMsg =
     (if command requestMsg \<noteq> [] \<and> startsWith (command requestMsg) (js ''nuclide_'')
      then requestMsg\<lparr>command := replace_first (command requestMsg) (js ''nuclide_'') (js ''fb_'')\<rparr>
      else requestMsg)"

subsection \<open>Launching and attaching\<close>

text \<open>\<^verbatim>\<open>forwardBufferedMessages\<close>: the loop over \<^verbatim>\<open>bufferedRequests\<close>.\<close>

definition forwardBufferedMessages :: "state \<Rightarrow> state" where
  "forwardBufferedMessages s =
     (case debuggerWriteCallback s of
        Some callback \<Rightarrow> foldl (\<lambda>t requestMsg. emit (ToTarget callback requestMsg) t) s (bufferedRequests s)
      | None \<Rightarrow> s)"

text \<open>
  \<^verbatim>\<open>launchTarget\<close>. With \<^verbatim>\<open>noDebug\<close> the child has three streams, so
  \<^verbatim>\<open>targetProcess.stdio[3]\<close> is \<^verbatim>\<open>undefined\<close> and calling \<^verbatim>\<open>.on\<close> on it throws a
  \<^verbatim>\<open>TypeError\<close>. The write callback writes to \<^verbatim>\<open>targetProcess.stdin\<close>.
\<close>

definition launchTarget :: "request \<Rightarrow> state \<Rightarrow> outcome" where
  "launchTarget launchMessage s =
     (let child = children s;
          dir = (case cwd launchMessage of Some d \<Rightarrow> if d \<noteq> [] then Some d else None | None \<Rightarrow> None);
          stdio = (if noDebug launchMessage then 3 else 4);
          s1 = emit (Spawned child stdio dir) (s\<lparr>children := child + 1\<rparr>);
          s2 = emit (Log Launched) s1
      in if \<not> 3 < stdio then die (Uncaught TypeError_stdio3) s2
         else
           (let callback = ChildStdin child;
                s3 = emit (ToTarget callback launchMessage) s2;
                s4 = s3\<lparr>debuggerWriteCallback := Some callback\<rparr>;
                s5 = forwardBufferedMessages s4
            in Inr (s5\<lparr>debugging := True\<rparr>)))"

text \<open>
  \<^verbatim>\<open>attachTarget\<close>, up to \<^verbatim>\<open>socket.connect\<close>; the socket's handlers follow. A port
  that is 0, \<^verbatim>\<open>NaN\<close> or the empty string is falsy and gives the default port. A
  numeric port (\<open>PortNumber n\<close>, for a number that is the integer \<open>n\<close>) goes through
  \<^verbatim>\<open>parseInt\<close> as its text: from 10^21 on that text is in exponent form, of which
  \<^verbatim>\<open>parseInt\<close> reads the first digit. \<^verbatim>\<open>socket.connect\<close> throws a \<^verbatim>\<open>RangeError\<close>
  for a port outside 0..65535, after the handlers are set and before anything else
  happens to the socket.
\<close>

fun leading_digit :: "nat \<Rightarrow> nat" where
  "leading_digit n = (if n < 10 then n else leading_digit (n div 10))"

declare leading_digit.simps [simp del]

definition DEFAULT_HHVM_DEBUGGER_PORT :: int where
  "DEFAULT_HHVM_DEBUGGER_PORT = 8999"

fun port_number :: "port_arg option \<Rightarrow> int option" where
  "port_number None = Some DEFAULT_HHVM_DEBUGGER_PORT"
| "port_number (Some (PortNumber n)) =
     Some (if n = 0 then DEFAULT_HHVM_DEBUGGER_PORT
           else if \<bar>n\<bar> < 10 ^ 21 then n
           else sgn n * int (leading_digit (nat \<bar>n\<bar>)))"
| "port_number (Some (PortString t)) = (if t = [] then Some DEFAULT_HHVM_DEBUGGER_PORT else parseInt t)"

definition attachTarget :: "request \<Rightarrow> nat \<Rightarrow> state \<Rightarrow> outcome" where
  "attachTarget attachMessage retries s =
     (case port_number (port attachMessage) of
        None \<Rightarrow> die (Uncaught InvalidPort) (emit (Log LogInvalidPort) s)
      | Some attachPort \<Rightarrow>
          (let s1 = emit (Log (Attaching attachPort)) s
           in if attachPort < 0 \<or> 65535 < attachPort
              then die (Uncaught PortRangeError) s1
              else
                (let socket = length (sockets s1);
                     s2 = s1\<lparr>sockets := sockets s1 @ [(attachMessage, retries, False)]\<rparr>
                 in Inr (emit (Connecting socket attachPort) s2))))"

text \<open>
  The handlers that \<^verbatim>\<open>attachTarget\<close> puts on its socket. \<open>socket_connect\<close> is the
  \<^verbatim>\<open>once('connect')\<close> handler: it runs at most once for a socket.
\<close>

definition socket_connect :: "nat \<Rightarrow> state \<Rightarrow> state" where
  "socket_connect socket s =
     (if socket < length (sockets s) \<and> \<not> snd (snd (sockets s ! socket)) then
        (let attachMessage = fst (sockets s ! socket);
             retries = fst (snd (sockets s ! socket));
             s0 = s\<lparr>sockets := (sockets s)[socket := (attachMessage, retries, True)]\<rparr>;
             s1 = emit (Log SocketConnected) s0;
             callback = SocketStream socket;
             s2 = emit (ToTarget callback attachMessage) s1;
             s3 = s2\<lparr>debuggerWriteCallback := Some callback\<rparr>;
             s4 = forwardBufferedMessages s3;
             s5 = s4\<lparr>debugging := True\<rparr>
         in writeResponseMessage (seq attachMessage) True (command attachMessage) s5)
      else s)"

definition socket_data :: "(jsstring \<Rightarrow> json_kind) \<Rightarrow> buffer \<Rightarrow> state \<Rightarrow> state" where
  "socket_data kind chunk s =
     processDebuggerMessage kind chunk (emit (Log (SocketMessage (toString chunk))) s)"

definition socket_close :: "state \<Rightarrow> outcome" where
  "socket_close s = die (Exit (ExitNumber 0)) (emit (Log SocketClosed) s)"

definition socket_disconnect :: "state \<Rightarrow> outcome" where
  "socket_disconnect s =
     die (Exit (ExitNumber 0)) (emit (ToStderr TargetClosed) (emit (Log SocketDisconnected) s))"

definition socket_failed :: "nat \<Rightarrow> socket_error \<Rightarrow> state \<Rightarrow> outcome" where
  "socket_failed socket error s =
     (if socket < length (sockets s) then
        (let attachMessage = fst (sockets s ! socket);
             retries = fst (snd (sockets s ! socket));
             s1 = emit (Log (SocketFailed (text_of error))) s
         in if retries \<ge> 5
            then die (Exit (ExitErrorCode (code error)))
                   (emit (ToStderr (CommunicationError (text_of error))) s1)
            else (let timer = length (timers s1);
                      s2 = s1\<lparr>timers := timers s1 @ [Some (attachMessage, retries + 1)]\<rparr>
                  in Inr (emit (TimerSet timer 1000) s2)))
      else Inr s)"

text \<open>The timer set by the error handler, when it fires.\<close>

definition timer_fired :: "nat \<Rightarrow> state \<Rightarrow> outcome" where
  "timer_fired timer s =
     (if timer < length (timers s) then
        (case timers s ! timer of
           Some (attachMessage, retries) \<Rightarrow>
             attachTarget attachMessage retries (s\<lparr>timers := (timers s)[timer := None]\<rparr>)
         | None \<Rightarrow> Inr s)
      else Inr s)"

subsection \<open>Requests from the client\<close>

text \<open>
  \<^verbatim>\<open>handleWrapperRequest\<close>. \<^verbatim>\<open>process.exit\<close> does not return, so the
  \<^verbatim>\<open>disconnect\<close> case ends there.
\<close>

definition handleWrapperRequest :: "request \<Rightarrow> state \<Rightarrow> dead + (bool \<times> state)" where
  "handleWrapperRequest requestMsg s =
     (if command requestMsg \<noteq> [] \<and> command requestMsg = js ''disconnect'' then
        die (Exit (ExitNumber 0)) (writeResponseMessage (seq requestMsg) True (command requestMsg) s)
      else if command requestMsg \<noteq> [] \<and> command requestMsg = js ''launch'' then
        (case launchTarget requestMsg s of Inl d \<Rightarrow> Inl d | Inr s' \<Rightarrow> Inr (True, s'))
      else if command requestMsg \<noteq> [] \<and> command requestMsg = js ''attach'' then
        (case attachTarget requestMsg 0 s of Inl d \<Rightarrow> Inl d | Inr s' \<Rightarrow> Inr (True, s'))
      else if \<not> debugging s then
        Inr (True, s\<lparr>bufferedRequests := bufferedRequests s @ [requestMsg]\<rparr>)
      else Inr (False, s))"

text \<open>
  The body of the loop of \<^verbatim>\<open>processClientMessage\<close> for one parsed request: what is not
  handled by the wrapper goes through \<^verbatim>\<open>translateNuclideRequest\<close> to the callback, when
  there is one.
\<close>

definition dispatch :: "request \<Rightarrow> state \<Rightarrow> outcome" where
  "dispatch requestMsg s =
     (case handleWrapperRequest requestMsg s of
        Inl d \<Rightarrow> Inl d
      | Inr (handled, s1) \<Rightarrow>
          if \<not> handled then
            (case debuggerWriteCallback s1 of
               Some callback \<Rightarrow> Inr (emit (ToTarget callback (translateNuclideRequest requestMsg)) s1)
             | None \<Rightarrow> Inr s1)
          else Inr s1)"

text \<open>\<^verbatim>\<open>readContentHeader\<close>; it throws when the header has no length.\<close>

definition readContentHeader :: "state \<Rightarrow> outcome" where
  "readContentHeader s =
     (let idx = indexOf (currentInputData s) TWO_CRLF in
      if idx \<le> 0 then Inr s
      else
        (let header = take (nat idx) (currentInputData s) in
         case match_content_length header of
           None \<Rightarrow> die (Uncaught FramingError) s
         | Some digits \<Rightarrow>
             Inr (s\<lparr>currentContentLength := digits_value digits,
                    currentInputData := drop (nat idx + length TWO_CRLF) (currentInputData s),
                    sequenceNumber := sequenceNumber s + 1\<rparr>)))"

subsection \<open>The deframing loop\<close>

text \<open>Handlers leave the input buffer alone; this is what makes the loop terminate.\<close>

lemma emit_simps [simp]:
  "sequenceNumber (emit e s) = sequenceNumber s"
  "currentOutputData (emit e s) = currentOutputData s"
  "currentInputData (emit e s) = currentInputData s"
  "currentContentLength (emit e s) = currentContentLength s"
  "bufferedRequests (emit e s) = bufferedRequests s"
  "debugging (emit e s) = debugging s"
  "debuggerWriteCallback (emit e s) = debuggerWriteCallback s"
  "sockets (emit e s) = sockets s"
  "timers (emit e s) = timers s"
  "children (emit e s) = children s"
  "effects (emit e s) = effects s @ [e]"
  by (simp_all add: emit_def)

lemma foldl_emit:
  "foldl (\<lambda>t r. emit (f r) t) s rs = s\<lparr>effects := effects s @ map f rs\<rparr>"
  by (induction rs arbitrary: s) (simp_all add: emit_def)

lemma forwardBufferedMessages_eq:
  "forwardBufferedMessages s =
     (case debuggerWriteCallback s of
        Some callback \<Rightarrow> s\<lparr>effects := effects s @ map (ToTarget callback) (bufferedRequests s)\<rparr>
      | None \<Rightarrow> s)"
  by (simp add: forwardBufferedMessages_def foldl_emit split: option.splits)

lemma launchTarget_input:
  "launchTarget m s = Inr s' \<Longrightarrow> currentInputData s' = currentInputData s"
  by (auto simp: launchTarget_def Let_def die_def forwardBufferedMessages_eq split: if_splits)

lemma attachTarget_input:
  "attachTarget m r s = Inr s' \<Longrightarrow> currentInputData s' = currentInputData s"
  by (auto simp: attachTarget_def Let_def die_def split: option.splits if_splits)

lemma handleWrapperRequest_input:
  "handleWrapperRequest m s = Inr (h, s') \<Longrightarrow> currentInputData s' = currentInputData s"
  by (auto simp: handleWrapperRequest_def die_def split: if_splits sum.splits
           dest: launchTarget_input attachTarget_input)

lemma dispatch_input:
  "dispatch m s = Inr s' \<Longrightarrow> currentInputData s' = currentInputData s"
  by (auto simp: dispatch_def split: sum.splits if_splits option.splits prod.splits
           dest: handleWrapperRequest_input)

lemma readContentHeader_input:
  "readContentHeader s = Inr s' \<Longrightarrow> length (currentInputData s') \<le> length (currentInputData s)"
  by (auto simp: readContentHeader_def Let_def die_def split: if_splits option.splits)

text \<open>
  The loop of \<^verbatim>\<open>processClientMessage\<close>. \<open>parse\<close> is \<^verbatim>\<open>JSON.parse\<close> on a client
  payload, read at the type \<^verbatim>\<open>DebugProtocol.Request\<close>; \<open>None\<close> is the exception it
  throws, which nothing catches.
\<close>

function client_loop :: "(jsstring \<Rightarrow> request option) \<Rightarrow> state \<Rightarrow> outcome" where
  "client_loop parse s =
     (case (if currentContentLength s = 0 then readContentHeader s else Inr s) of
        Inl d \<Rightarrow> Inl d
      | Inr s1 \<Rightarrow>
          (let len = currentContentLength s1 in
           if len = 0 \<or> length (currentInputData s1) < len then Inr s1
           else
             (let message = take len (currentInputData s1) in
              case parse message of
                None \<Rightarrow> die (Uncaught (JsonSyntaxError message)) s1
              | Some requestMsg \<Rightarrow>
                  (case dispatch requestMsg (emit (Log (ParsedRequest requestMsg)) s1) of
                     Inl d \<Rightarrow> Inl d
                   | Inr s2 \<Rightarrow>
                       client_loop parse
                         (s2\<lparr>currentContentLength := 0,
                             currentInputData := drop len (currentInputData s2)\<rparr>)))))"
  by pat_completeness auto
termination
  apply (relation "measure (\<lambda>(parse, s). length (currentInputData s))")
   apply simp
  subgoal for parse s s1 len message requestMsg s2
    apply (auto dest!: dispatch_input readContentHeader_input split: if_splits)
    done
  done

declare client_loop.simps [simp del]

definition processClientMessage :: "(jsstring \<Rightarrow> request option) \<Rightarrow> buffer \<Rightarrow> state \<Rightarrow> outcome" where
  "processClientMessage parse chunk s =
     client_loop parse (s\<lparr>currentInputData := currentInputData s @ toString chunk\<rparr>)"

subsection \<open>The event loop\<close>

text \<open>
  The events the wrapper has handlers for: data on standard input; connect, data, close,
  disconnect and error of a socket; a retry timer; exit, error, standard output, standard
  error and the fourth stream of a launched child.
\<close>

datatype event =
  ClientData buffer
| SocketConnect nat
| SocketData nat buffer
| SocketClose nat
| SocketDisconnect nat
| SocketError nat socket_error
| TimerFired nat
| ChildExit nat "int option"
| ChildError nat jsstring
| ChildStdout nat buffer
| ChildStderr nat buffer
| ChildFd3Data nat buffer

record platform =
  parse_request :: "jsstring \<Rightarrow> request option"
  target_json :: "jsstring \<Rightarrow> json_kind"

fun handle :: "platform \<Rightarrow> event \<Rightarrow> state \<Rightarrow> outcome" where
  "handle P (ClientData chunk) s = processClientMessage (parse_request P) chunk s"
| "handle P (SocketConnect n) s = Inr (socket_connect n s)"
| "handle P (SocketData n chunk) s =
     (if n < length (sockets s) then Inr (socket_data (target_json P) chunk s) else Inr s)"
| "handle P (SocketClose n) s = (if n < length (sockets s) then socket_close s else Inr s)"
| "handle P (SocketDisconnect n) s = (if n < length (sockets s) then socket_disconnect s else Inr s)"
| "handle P (SocketError n error) s = socket_failed n error s"
| "handle P (TimerFired n) s = timer_fired n s"
| "handle P (ChildExit n c) s =
     (if n < children s then die (Exit (ExitChildCode c)) s else Inr s)"
| "handle P (ChildError n t) s =
     (if n < children s then Inr (emit (ToStderr (SpawnError t)) s) else Inr s)"
| "handle P (ChildStdout n chunk) s =
     (if n < children s then Inr (writeOutputEvent Stdout (toString chunk) s) else Inr s)"
| "handle P (ChildStderr n chunk) s =
     (if n < children s then Inr (writeOutputEvent Stderr (toString chunk) s) else Inr s)"
| "handle P (ChildFd3Data n chunk) s =
     (if n < children s then Inr (processDebuggerMessage (target_json P) chunk s) else Inr s)"

text \<open>A run: the events one after the other, until the process ends.\<close>

fun run :: "platform \<Rightarrow> event list \<Rightarrow> outcome \<Rightarrow> outcome" where
  "run P [] out = out"
| "run P (e # es) (Inl d) = Inl d"
| "run P (e # es) (Inr s) = run P es (handle P e s)"

text \<open>\<^verbatim>\<open>new HHVMDebuggerWrapper().debug()\<close>.\<close>

definition debug :: state where
  "debug = emit (Log Started) init"

text \<open>The effects of an outcome, whether the process goes on or has ended.\<close>

fun trace :: "outcome \<Rightarrow> effect list" where
  "trace (Inl (h, es)) = es"
| "trace (Inr s) = effects s"

subsection \<open>Invariant rules for the two loops\<close>

text \<open>
  What holds before a loop and is kept by each statement of its body holds after it. For
  the client loop the ended process has a predicate of its own.
\<close>

lemma debugger_loop_rule:
  assumes "Q s"
    and msg: "\<And>s m. Q s \<Longrightarrow> Q (deliver_message kind m s)"
    and buf: "\<And>s b. Q s \<Longrightarrow> Q (s\<lparr>currentOutputData := b\<rparr>)"
  shows "Q (debugger_loop kind s)"
proof -
  from msg have all: "\<forall>s m. Q s \<longrightarrow> Q (deliver_message kind m s)" by blast
  from \<open>Q s\<close> all show ?thesis
  proof (induction kind s rule: debugger_loop.induct)
    case (1 kind s)
    show ?case
    proof (cases "indexOf (currentOutputData s) NUL > 0")
      case False
      then show ?thesis using "1.prems" by (subst debugger_loop.simps) (simp add: Let_def)
    next
      case True
      let ?m = "take (nat (indexOf (currentOutputData s) NUL)) (currentOutputData s)"
      let ?s1 = "deliver_message kind ?m s"
      have "Q ?s1" using "1.prems" by blast
      then have "Q (?s1\<lparr>currentOutputData := drop (nat (indexOf (currentOutputData s) NUL) + 1) (currentOutputData ?s1)\<rparr>)"
        by (rule buf)
      from "1.IH" [OF refl True refl refl this "1.prems"(2)] True show ?thesis
        by (subst debugger_loop.simps) (simp add: Let_def)
    qed
  qed
qed

lemma client_loop_rule:
  assumes "Q s"
    and hdr: "\<And>s s'. Q s \<Longrightarrow> readContentHeader s = Inr s' \<Longrightarrow> Q s'"
    and hdr_dead: "\<And>s d. Q s \<Longrightarrow> readContentHeader s = Inl d \<Longrightarrow> D d"
    and dsp: "\<And>s m s'. Q s \<Longrightarrow> dispatch m (emit (Log (ParsedRequest m)) s) = Inr s' \<Longrightarrow> Q s'"
    and dsp_dead: "\<And>s m d. Q s \<Longrightarrow> dispatch m (emit (Log (ParsedRequest m)) s) = Inl d \<Longrightarrow> D d"
    and upd: "\<And>s n b. Q s \<Longrightarrow> Q (s\<lparr>currentContentLength := n, currentInputData := b\<rparr>)"
    and dead: "\<And>s h. Q s \<Longrightarrow> D (h, effects s)"
  shows "case client_loop parse s of Inl d \<Rightarrow> D d | Inr s' \<Rightarrow> Q s'"
  using \<open>Q s\<close>
proof (induction parse s rule: client_loop.induct)
  case (1 parse s)
  let ?h = "if currentContentLength s = 0 then readContentHeader s else Inr s"
  show ?case
  proof (cases ?h)
    case (Inl d)
    then have "D d" using hdr_dead "1.prems" by (auto split: if_splits)
    with Inl show ?thesis by (subst client_loop.simps) simp
  next
    case (Inr s1)
    then have q1: "Q s1" using hdr "1.prems" by (auto split: if_splits)
    let ?len = "currentContentLength s1"
    show ?thesis
    proof (cases "?len = 0 \<or> length (currentInputData s1) < ?len")
      case True
      with Inr q1 show ?thesis by (subst client_loop.simps) (simp add: Let_def)
    next
      case False
      let ?m = "take ?len (currentInputData s1)"
      show ?thesis
      proof (cases "parse ?m")
        case None
        with Inr False dead [OF q1] show ?thesis
          by (subst client_loop.simps) (simp add: Let_def die_def)
      next
        case (Some r)
        show ?thesis
        proof (cases "dispatch r (emit (Log (ParsedRequest r)) s1)")
          case (Inl d)
          with dsp_dead [OF q1] have "D d" by blast
          with Inr False Some Inl show ?thesis
            by (subst client_loop.simps) (simp add: Let_def)
        next
          case s2: (Inr s2)
          with dsp [OF q1] have "Q s2" by blast
          then have "Q (s2\<lparr>currentContentLength := 0, currentInputData := drop ?len (currentInputData s2)\<rparr>)"
            by (rule upd)
          from "1.IH" [OF Inr refl _ refl Some s2 this] False
          show ?thesis
            using Inr Some s2 by (subst client_loop.simps) (simp add: Let_def)
        qed
      qed
    qed
  qed
qed

subsection \<open>Example data\<close>

text \<open>
  Concrete requests and a concrete \<^verbatim>\<open>JSON.parse\<close>, for evaluating the handlers: the
  payloads \<^verbatim>\<open>{L}\<close>, \<^verbatim>\<open>{A}\<close>, \<^verbatim>\<open>{N}\<close>, \<^verbatim>\<open>{T}\<close>, \<^verbatim>\<open>{D}\<close> and
  \<^verbatim>\<open>{X}\<close> stand for the JSON text of the six requests below; from the target,
  \<^verbatim>\<open>{}\<close> is an object, \<^verbatim>\<open>[]\<close> an array, \<^verbatim>\<open>1\<close> a number, and nothing else
  parses.
\<close>

definition ascii :: "string \<Rightarrow> buffer" where
  "ascii t = map of_char t"

definition launch_request :: request where
  "launch_request =
     \<lparr>seq = 1, command = js ''launch'', port = None, noDebug = False, cwd = None, body = []\<rparr>"

definition attach_request :: request where
  "attach_request =
     \<lparr>seq = 2, command = js ''attach'', port = Some (PortNumber 9999), noDebug = False,
      cwd = None, body = []\<rparr>"

definition nodebug_request :: request where
  "nodebug_request =
     \<lparr>seq = 3, command = js ''launch'', port = None, noDebug = True, cwd = None, body = []\<rparr>"

definition threads_request :: request where
  "threads_request =
     \<lparr>seq = 4, command = js ''threads'', port = None, noDebug = False, cwd = None, body = []\<rparr>"

definition disconnect_request :: request where
  "disconnect_request =
     \<lparr>seq = 7, command = js ''disconnect'', port = None, noDebug = False, cwd = None, body = []\<rparr>"

definition nuclide_request :: request where
  "nuclide_request =
     \<lparr>seq = 5, command = js ''nuclide_continueToLocation'', port = None, noDebug = False,
      cwd = None, body = []\<rparr>"

definition example_parse :: "jsstring \<Rightarrow> request option" where
  "example_parse m =
     (if m = js ''{L}'' then Some launch_request
      else if m = js ''{A}'' then Some attach_request
      else if m = js ''{N}'' then Some nodebug_request
      else if m = js ''{T}'' then Some threads_request
      else if m = js ''{D}'' then Some disconnect_request
      else if m = js ''{X}'' then Some nuclide_request
      else None)"

definition example_kind :: "jsstring \<Rightarrow> json_kind" where
  "example_kind m =
     (if m = js ''{}'' then JsonObject
      else if m = js ''[]'' then JsonArray
      else if m = js ''1'' then JsonOther
      else NotJson)"

definition example_platform :: platform where
  "example_platform = \<lparr>parse_request = example_parse, target_json = example_kind\<rparr>"

text \<open>A client frame with a three-byte payload.\<close>

definition client_frame :: "string \<Rightarrow> buffer" where
  "client_frame payload = ascii ''Content-Length: 3'' @ [13, 10, 13, 10] @ ascii payload"

section \<open>Properties\<close>

subsection \<open>Sequence numbers\<close>

fun client_frames :: "effect list \<Rightarrow> frame list" where
  "client_frames [] = []"
| "client_frames (ToClient f # es) = f # client_frames es"
| "client_frames (e # es) = client_frames es"

text \<open>
  The sequence numbers that the client has been sent, in the order of the writes, and
  the texts that were written with none.
\<close>

fun client_seqs :: "effect list \<Rightarrow> nat list" where
  "client_seqs [] = []"
| "client_seqs (ToClient f # es) =
     (case frame_seq f of Some n \<Rightarrow> n # client_seqs es | None \<Rightarrow> client_seqs es)"
| "client_seqs (e # es) = client_seqs es"

fun unnumbered :: "effect list \<Rightarrow> jsstring list" where
  "unnumbered [] = []"
| "unnumbered (ToClient (Unnumbered m) # es) = m # unnumbered es"
| "unnumbered (e # es) = unnumbered es"

lemma client_frames_append [simp]:
  "client_frames (xs @ ys) = client_frames xs @ client_frames ys"
  by (induction xs rule: client_frames.induct) simp_all

lemma client_seqs_append [simp]:
  "client_seqs (xs @ ys) = client_seqs xs @ client_seqs ys"
  by (induction xs rule: client_seqs.induct) (simp_all split: option.splits)

lemma unnumbered_append [simp]:
  "unnumbered (xs @ ys) = unnumbered xs @ unnumbered ys"
  by (induction xs rule: unnumbered.induct) simp_all

lemma client_frames_ToTarget [simp]:
  "client_frames (map (ToTarget c) rs) = []"
  by (induction rs) simp_all

lemma client_seqs_ToTarget [simp]:
  "client_seqs (map (ToTarget c) rs) = []"
  by (induction rs) simp_all

lemma unnumbered_ToTarget [simp]:
  "unnumbered (map (ToTarget c) rs) = []"
  by (induction rs) simp_all

definition seq_ok :: "(jsstring \<Rightarrow> json_kind) \<Rightarrow> nat \<Rightarrow> effect list \<Rightarrow> bool" where
  "seq_ok kind n es = (sorted_wrt (<) (client_seqs es) \<and>
                       list_all (\<lambda>k. k \<le> n) (client_seqs es) \<and>
                       list_all (\<lambda>m. kind m = JsonArray) (unnumbered es))"

definition seq_inv :: "(jsstring \<Rightarrow> json_kind) \<Rightarrow> nat \<Rightarrow> state \<Rightarrow> bool" where
  "seq_inv kind k s = (k \<le> sequenceNumber s \<and> seq_ok kind (sequenceNumber s) (effects s))"


lemma seq_ok_other:
  "seq_ok kind n es \<Longrightarrow> client_seqs new = [] \<Longrightarrow> unnumbered new = [] \<Longrightarrow>
   seq_ok kind n (es @ new)"
  by (simp add: seq_ok_def)







lemma seq_inv_forward:
  "seq_inv kind k s \<Longrightarrow> seq_inv kind k (forwardBufferedMessages s)"
  by (auto simp: seq_inv_def forwardBufferedMessages_eq seq_ok_other split: option.splits)













text \<open>One turn of the loop, on a buffer that holds one message of at least one unit.\<close>

lemma indexOf_first_NUL:
  "0 \<notin> set m \<Longrightarrow> indexOf (m @ 0 # rest) NUL = int (length m)"
proof (induction m)
  case Nil
  then show ?case by (simp add: indexOf_Cons NUL_def)
next
  case (Cons a m)
  then show ?case by (simp add: indexOf_Cons NUL_def)
qed

lemma indexOf_no_NUL:
  "0 \<notin> set m \<Longrightarrow> indexOf m NUL = - 1"
  by (induction m) (simp_all add: indexOf_Cons indexOf_Nil NUL_def)

lemma debugger_loop_message:
  assumes "0 \<notin> set m" and "m \<noteq> []" and "currentOutputData s = m @ 0 # rest"
  shows "debugger_loop kind s =
           debugger_loop kind ((deliver_message kind m s)\<lparr>currentOutputData := rest\<rparr>)"
proof -
  have idx: "indexOf (m @ 0 # rest) NUL = int (length m)"
    using assms by (simp add: indexOf_first_NUL)
  show ?thesis
    by (subst debugger_loop.simps) (simp add: assms idx Let_def deliver_message_output)
qed



subsection \<open>A leading NUL in the target buffer\<close>

definition leading_NUL :: "state \<Rightarrow> bool" where
  "leading_NUL s = (take 1 (currentOutputData s) = NUL)"

lemma debugger_loop_stuck:
  "indexOf (currentOutputData s) NUL \<le> 0 \<Longrightarrow> debugger_loop valid s = s"
  by (subst debugger_loop.simps) (simp add: Let_def)

lemma indexOf_leading_NUL:
  "indexOf (0 # xs @ ys) NUL = 0"
  by (simp add: indexOf_Cons NUL_def)

lemma leading_NUL_Cons:
  "leading_NUL s \<longleftrightarrow> (\<exists>xs. currentOutputData s = 0 # xs)"
  by (cases "currentOutputData s") (auto simp: leading_NUL_def NUL_def)

lemma processDebuggerMessage_stuck:
  assumes "leading_NUL s"
  shows "processDebuggerMessage valid chunk s =
           s\<lparr>currentOutputData := currentOutputData s @ toString chunk\<rparr>"
proof -
  from assms obtain xs where xs: "currentOutputData s = 0 # xs"
    by (auto simp: leading_NUL_Cons)
  show ?thesis
    unfolding processDebuggerMessage_def
    using indexOf_leading_NUL [of xs "toString chunk"] xs
    by (intro debugger_loop_stuck) simp
qed

text \<open>
  C10. When the target buffer begins with a NUL, the delimiting loop does nothing: the
  state is returned as it is, the NUL stays at the front, and whatever chunks arrive from
  the target afterwards are only appended to the buffer: no effect happens (nothing is
  written to the client), and the sequence counter stays where it was.
\<close>

theorem leading_NUL_stalls:
  "leading_NUL s \<Longrightarrow>
     debugger_loop valid s = s \<and>
     foldl (\<lambda>t chunk. processDebuggerMessage valid chunk t) s chunks =
       s\<lparr>currentOutputData := currentOutputData s @ concat (map toString chunks)\<rparr>"
proof (induction chunks arbitrary: s)
  case Nil
  then obtain xs where "currentOutputData s = 0 # xs"
    by (auto simp: leading_NUL_Cons)
  then show ?case
    using indexOf_leading_NUL [of xs "[]"] by (simp add: debugger_loop_stuck)
next
  case (Cons c cs)
  let ?t = "s\<lparr>currentOutputData := currentOutputData s @ toString c\<rparr>"
  from Cons.prems have "leading_NUL ?t"
    by (auto simp: leading_NUL_Cons)
  from Cons.IH [OF this] Cons.IH [OF Cons.prems] show ?case
    by (simp add: processDebuggerMessage_stuck [OF Cons.prems])
qed

theorem leading_NUL_stalls_witness:
  "leading_NUL (init\<lparr>currentOutputData := [0, 123, 125, 0]\<rparr>) \<and>
   foldl (\<lambda>t chunk. processDebuggerMessage (\<lambda>m. JsonObject) chunk t)
     (init\<lparr>currentOutputData := [0, 123, 125, 0]\<rparr>) [[123, 125, 0]] =
   init\<lparr>currentOutputData := [0, 123, 125, 0, 123, 125, 0]\<rparr>"
proof -
  have h: "leading_NUL (init\<lparr>currentOutputData := [0, 123, 125, 0]\<rparr>)"
    by (simp add: leading_NUL_def NUL_def)
  have d: "toString [123, 125, 0] = [123, 125, 0]"
    by (simp add: toString_def)
  show ?thesis
    using h leading_NUL_stalls [OF h, of "\<lambda>m. JsonObject" "[[123, 125, 0]]"] by (simp add: d)
qed



subsection \<open>Launching without debugging\<close>

lemma launchTarget_noDebug:
  "noDebug m \<Longrightarrow>
   launchTarget m s =
     Inl (Uncaught TypeError_stdio3,
          effects s @ [Spawned (children s) 3
                         (case cwd m of Some d \<Rightarrow> if d \<noteq> [] then Some d else None | None \<Rightarrow> None),
                       Log Launched])"
  by (simp add: launchTarget_def Let_def die_def)

text \<open>
  C8. A launch request with \<^verbatim>\<open>noDebug\<close> spawns the child with three streams and then
  reads \<^verbatim>\<open>targetProcess.stdio[3]\<close>, which is \<^verbatim>\<open>undefined\<close>: the handler throws a
  \<^verbatim>\<open>TypeError\<close> that nothing catches, and the wrapper ends there. Nothing is written to
  the child.
\<close>

theorem noDebug_launch_throws:
  "run example_platform [ClientData (client_frame ''{N}'')] (Inr debug) =
     Inl (Uncaught TypeError_stdio3,
          [Log Started, Log (ParsedRequest nodebug_request), Spawned 0 3 None, Log Launched])"
  by code_simp

subsection \<open>The stream of a launched target\<close>

lemma launchTarget_debug:
  "\<not> noDebug m \<Longrightarrow>
   launchTarget m s =
     Inr (s\<lparr>children := children s + 1,
            effects := effects s @
              [Spawned (children s) 4
                 (case cwd m of Some d \<Rightarrow> if d \<noteq> [] then Some d else None | None \<Rightarrow> None),
               Log Launched, ToTarget (ChildStdin (children s)) m] @
              map (ToTarget (ChildStdin (children s))) (bufferedRequests s),
            debuggerWriteCallback := Some (ChildStdin (children s)),
            debugging := True\<rparr>)"
  by (simp add: launchTarget_def Let_def forwardBufferedMessages_eq emit_def)

text \<open>
  C9. With a launched target in debug mode, the handshake, the buffered request and the
  request that comes after the launch are all written to the child's standard input
  (\<open>ChildStdin\<close>), none to its fourth stream (\<open>ChildFd3\<close>), which is only read.
\<close>

theorem launched_target_written_on_stdin:
  "trace (run example_platform
            [ClientData (client_frame ''{T}''), ClientData (client_frame ''{L}''),
             ClientData (client_frame ''{T}'')] (Inr debug)) =
     [Log Started, Log (ParsedRequest threads_request), Log (ParsedRequest launch_request),
      Spawned 0 4 None, Log Launched,
      ToTarget (ChildStdin 0) launch_request, ToTarget (ChildStdin 0) threads_request,
      Log (ParsedRequest threads_request), ToTarget (ChildStdin 0) threads_request]"
  by code_simp

subsection \<open>Command names on the way to the target\<close>

lemma js_nuclide: "js ''nuclide_'' = [110, 117, 99, 108, 105, 100, 101, 95]"
  by (simp add: js_def)

lemma js_fb: "js ''fb_'' = [102, 98, 95]"
  by (simp add: js_def)

lemma indexOf_prefix: "indexOf (p @ t) p = 0"
proof (cases "p @ t")
  case Nil
  then show ?thesis by (simp add: indexOf_Nil)
next
  case (Cons a l)
  have "take (length p) (p @ t) = p" by simp
  then have "take (length p) (a # l) = p" by (simp only: Cons)
  then have "indexOf (a # l) p = 0" by (simp add: indexOf_Cons)
  then show ?thesis by (simp only: Cons)
qed

lemma replace_first_prefix: "replace_first (p @ t) p rep = rep @ t"
  by (simp add: replace_first_def indexOf_prefix)

lemma translate_prefixed:
  "command (translateNuclideRequest (r\<lparr>command := js ''nuclide_'' @ t\<rparr>)) = js ''fb_'' @ t"
proof -
  have "js ''nuclide_'' @ t \<noteq> []" by (simp add: js_nuclide)
  then show ?thesis
    by (simp add: translateNuclideRequest_def startsWith_def replace_first_prefix)
qed

lemma translate_other:
  "\<not> startsWith (command r) (js ''nuclide_'') \<Longrightarrow> translateNuclideRequest r = r"
  by (simp add: translateNuclideRequest_def)

lemma startsWith_append: "startsWith s p \<longleftrightarrow> (\<exists>t. s = p @ t)"
  by (metis append_eq_conv_conj startsWith_def)

lemma translate_idempotent:
  "translateNuclideRequest (translateNuclideRequest r) = translateNuclideRequest r"
proof (cases "startsWith (command r) (js ''nuclide_'')")
  case True
  then obtain t where t: "command r = js ''nuclide_'' @ t"
    by (auto simp: startsWith_append)
  have "r = r\<lparr>command := js ''nuclide_'' @ t\<rparr>" using t by simp
  then have "command (translateNuclideRequest r) = js ''fb_'' @ t"
    using translate_prefixed [where r = r and t = t] by simp
  then have "\<not> startsWith (command (translateNuclideRequest r)) (js ''nuclide_'')"
    by (simp add: startsWith_def js_nuclide js_fb)
  then show ?thesis by (rule translate_other)
next
  case False
  then show ?thesis by (simp add: translate_other)
qed

text \<open>
  C5. A request whose command begins with \<^verbatim>\<open>nuclide_\<close> and that arrives before the
  launch is buffered, and \<^verbatim>\<open>forwardBufferedMessages\<close> sends it as it is, with the
  \<^verbatim>\<open>nuclide_\<close> prefix; the same request arriving after the launch goes through
  \<^verbatim>\<open>translateNuclideRequest\<close> and is sent with the \<^verbatim>\<open>fb_\<close> prefix.
\<close>

theorem buffered_request_not_translated:
  "trace (run example_platform
            [ClientData (client_frame ''{X}''), ClientData (client_frame ''{L}''),
             ClientData (client_frame ''{X}'')] (Inr debug)) =
     [Log Started, Log (ParsedRequest nuclide_request), Log (ParsedRequest launch_request),
      Spawned 0 4 None, Log Launched,
      ToTarget (ChildStdin 0) launch_request,
      ToTarget (ChildStdin 0) (nuclide_request\<lparr>command := js ''nuclide_continueToLocation''\<rparr>),
      Log (ParsedRequest nuclide_request),
      ToTarget (ChildStdin 0) (nuclide_request\<lparr>command := js ''fb_continueToLocation''\<rparr>)]"
  by code_simp

subsection \<open>Messages that do not parse\<close>

text \<open>What a sequence of complete messages becomes: each is delivered in its turn.\<close>

lemma deliver_message_buffer:
  "deliver_message kind m (s\<lparr>currentOutputData := b\<rparr>) =
     (deliver_message kind m s)\<lparr>currentOutputData := b\<rparr>"
  by (simp add: deliver_message_def Let_def emit_def split: json_kind.splits)

lemma deliver_messages_buffer:
  "(foldl (\<lambda>t m. deliver_message kind m t) (s\<lparr>currentOutputData := b\<rparr>) ms)
     \<lparr>currentOutputData := c\<rparr> =
   (foldl (\<lambda>t m. deliver_message kind m t) s ms)\<lparr>currentOutputData := c\<rparr>"
proof (induction ms arbitrary: s)
  case Nil
  then show ?case by simp
next
  case (Cons m ms)
  show ?case using Cons.IH [of "deliver_message kind m s"]
    by (simp add: deliver_message_buffer)
qed

lemma debugger_loop_messages:
  assumes "\<forall>m \<in> set ms. 0 \<notin> set m \<and> m \<noteq> []" and "0 \<notin> set partial"
    and "currentOutputData s = concat (map (\<lambda>m. m @ [0]) ms) @ partial"
  shows "debugger_loop kind s =
           (foldl (\<lambda>t m. deliver_message kind m t) s ms)\<lparr>currentOutputData := partial\<rparr>"
  using assms
proof (induction ms arbitrary: s)
  case Nil
  then have "indexOf (currentOutputData s) NUL \<le> 0"
    by (simp add: indexOf_no_NUL)
  then have "debugger_loop kind s = s"
    by (subst debugger_loop.simps) (simp add: Let_def)
  then show ?case using Nil by simp
next
  case (Cons m ms)
  let ?rest = "concat (map (\<lambda>m. m @ [0]) ms) @ partial"
  let ?t = "(deliver_message kind m s)\<lparr>currentOutputData := ?rest\<rparr>"
  have step: "debugger_loop kind s = debugger_loop kind ?t"
    using Cons.prems by (intro debugger_loop_message) simp_all
  have "debugger_loop kind ?t =
          (foldl (\<lambda>t m. deliver_message kind m t) ?t ms)\<lparr>currentOutputData := partial\<rparr>"
    using Cons.prems by (intro Cons.IH) simp_all
  then show ?case
    by (simp add: step deliver_messages_buffer)
qed

text \<open>
  C6. The empty message: a chunk that begins with NUL, followed by a valid message. No
  diagnostic is written, nothing is dropped, and neither the valid message of the same
  chunk nor the one of the next chunk reaches the client: the effects are those of the
  launch alone, and the buffer keeps everything.
\<close>

theorem empty_message_not_dropped:
  "run example_platform
     [ClientData (client_frame ''{L}''),
      ChildFd3Data 0 ([0] @ ascii ''{}'' @ [0]),
      ChildFd3Data 0 (ascii ''{}'' @ [0])] (Inr debug) =
   Inr \<lparr>sequenceNumber = 1, currentOutputData = [0, 123, 125, 0, 123, 125, 0],
        currentInputData = [], currentContentLength = 0, bufferedRequests = [],
        debugging = True, debuggerWriteCallback = Some (ChildStdin 0), sockets = [],
        timers = [], children = 1,
        effects = [Log Started, Log (ParsedRequest launch_request), Spawned 0 4 None,
                   Log Launched, ToTarget (ChildStdin 0) launch_request]\<rparr>"
  by code_simp

text \<open>For comparison, a message of one unit that does not parse is dropped as claimed.\<close>

lemma invalid_message_dropped:
  "trace (run example_platform
     [ClientData (client_frame ''{L}''),
      ChildFd3Data 0 (ascii ''x'' @ [0] @ ascii ''{}'' @ [0])] (Inr debug)) =
     [Log Started, Log (ParsedRequest launch_request), Spawned 0 4 None, Log Launched,
      ToTarget (ChildStdin 0) launch_request,
      ToStderr (TargetParseError (js ''x'')), ToClient (Forwarded 2 (js ''{}''))]"
  by code_simp

subsection \<open>Connection errors while attaching\<close>

definition refused :: socket_error where
  "refused = \<lparr>code = js ''ECONNREFUSED'',
              text_of = js ''Error: connect ECONNREFUSED 127.0.0.1:9999''\<rparr>"

text \<open>The error handler by itself: a timer of 1000 ms for the same message, or the exit.\<close>

lemma socket_failed_retry:
  assumes "socket < length (sockets s)" and "sockets s ! socket = (attachMessage, retries, fired)"
    and "retries < 5"
  shows "socket_failed socket error s =
           Inr (s\<lparr>timers := timers s @ [Some (attachMessage, retries + 1)],
                  effects := effects s @ [Log (SocketFailed (text_of error)),
                                          TimerSet (length (timers s)) 1000]\<rparr>)"
  using assms by (simp add: socket_failed_def Let_def emit_def)

lemma socket_failed_exhausted:
  assumes "socket < length (sockets s)" and "sockets s ! socket = (attachMessage, retries, fired)"
    and "retries \<ge> 5"
  shows "socket_failed socket error s =
           Inl (Exit (ExitErrorCode (code error)),
                effects s @ [Log (SocketFailed (text_of error)),
                             ToStderr (CommunicationError (text_of error))])"
  using assms by (simp add: socket_failed_def Let_def emit_def die_def)

lemma timer_fired_attaches:
  assumes "timer < length (timers s)" and "timers s ! timer = Some (attachMessage, retries)"
  shows "timer_fired timer s =
           attachTarget attachMessage retries (s\<lparr>timers := (timers s)[timer := None]\<rparr>)"
  using assms by (simp add: timer_fired_def)

text \<open>
  Six errors in a row, each followed by its timer and by nothing else: the sixth error
  ends the process with the error's code.
\<close>

lemma six_errors_without_close:
  "run example_platform
     [ClientData (client_frame ''{A}''),
      SocketError 0 refused, TimerFired 0, SocketError 1 refused, TimerFired 1,
      SocketError 2 refused, TimerFired 2, SocketError 3 refused, TimerFired 3,
      SocketError 4 refused, TimerFired 4, SocketError 5 refused] (Inr debug) =
   Inl (Exit (ExitErrorCode (js ''ECONNREFUSED'')),
        [Log Started, Log (ParsedRequest attach_request),
         Log (Attaching 9999), Connecting 0 9999,
         Log (SocketFailed (text_of refused)), TimerSet 0 1000,
         Log (Attaching 9999), Connecting 1 9999,
         Log (SocketFailed (text_of refused)), TimerSet 1 1000,
         Log (Attaching 9999), Connecting 2 9999,
         Log (SocketFailed (text_of refused)), TimerSet 2 1000,
         Log (Attaching 9999), Connecting 3 9999,
         Log (SocketFailed (text_of refused)), TimerSet 3 1000,
         Log (Attaching 9999), Connecting 4 9999,
         Log (SocketFailed (text_of refused)), TimerSet 4 1000,
         Log (Attaching 9999), Connecting 5 9999,
         Log (SocketFailed (text_of refused)),
         ToStderr (CommunicationError (text_of refused))])"
  by code_simp

text \<open>
  C4. A \<^verbatim>\<open>net.Socket\<close> emits \<^verbatim>\<open>close\<close> directly after \<^verbatim>\<open>error\<close>. The first
  failed connect therefore runs the error handler, which sets the retry timer, and then
  the close handler, which calls \<^verbatim>\<open>process.exit(0)\<close>: the process ends with status 0,
  there is one connection attempt only, no diagnostic on standard error, and the timer
  has nothing left to fire in.
\<close>

theorem close_after_error_ends_retries:
  "run example_platform
     [ClientData (client_frame ''{A}''), SocketError 0 refused, SocketClose 0, TimerFired 0]
     (Inr debug) =
   Inl (Exit (ExitNumber 0),
        [Log Started, Log (ParsedRequest attach_request),
         Log (Attaching 9999), Connecting 0 9999,
         Log (SocketFailed (text_of refused)), TimerSet 0 1000, Log SocketClosed])"
  by code_simp

subsection \<open>The order of events at a connect\<close>

text \<open>The requests written to one stream, in order.\<close>

fun sent_to :: "stream \<Rightarrow> effect list \<Rightarrow> request list" where
  "sent_to st [] = []"
| "sent_to st (ToTarget st' r # es) = (if st' = st then r # sent_to st es else sent_to st es)"
| "sent_to st (e # es) = sent_to st es"

lemma sent_to_append [simp]: "sent_to st (xs @ ys) = sent_to st xs @ sent_to st ys"
  by (induction st xs rule: sent_to.induct) simp_all

lemma sent_to_map [simp]:
  "sent_to st (map (ToTarget st') rs) = (if st' = st then rs else [])"
  by (induction rs) auto

text \<open>
  A socket whose connect handler has not run has had nothing written to it, and is not
  the one the write callback is bound to.
\<close>

definition unconnected :: "nat \<Rightarrow> state \<Rightarrow> bool" where
  "unconnected n s = (n < length (sockets s) \<longrightarrow> \<not> snd (snd (sockets s ! n)))"

definition quiet :: "state \<Rightarrow> bool" where
  "quiet s = (\<forall>n. unconnected n s \<longrightarrow>
                sent_to (SocketStream n) (effects s) = [] \<and>
                debuggerWriteCallback s \<noteq> Some (SocketStream n))"

lemma quiet_emit [simp]:
  "quiet (emit (ToClient f) s) = quiet s"
  "quiet (emit (ToStderr d) s) = quiet s"
  "quiet (emit (Log l) s) = quiet s"
  "quiet (emit (Spawned c k dir) s) = quiet s"
  "quiet (emit (Connecting n p) s) = quiet s"
  "quiet (emit (TimerSet n ms) s) = quiet s"
  by (simp_all add: quiet_def unconnected_def emit_def)

lemma quiet_emit_callback:
  "quiet s \<Longrightarrow> debuggerWriteCallback s = Some st \<Longrightarrow> quiet (emit (ToTarget st r) s)"
  by (auto simp: quiet_def unconnected_def emit_def)

lemma quiet_update [simp]:
  "quiet (s\<lparr>currentInputData := b\<rparr>) = quiet s"
  "quiet (s\<lparr>currentOutputData := b\<rparr>) = quiet s"
  "quiet (s\<lparr>currentContentLength := k\<rparr>) = quiet s"
  "quiet (s\<lparr>sequenceNumber := k\<rparr>) = quiet s"
  "quiet (s\<lparr>bufferedRequests := rs\<rparr>) = quiet s"
  "quiet (s\<lparr>debugging := d\<rparr>) = quiet s"
  "quiet (s\<lparr>timers := ts\<rparr>) = quiet s"
  "quiet (s\<lparr>children := c\<rparr>) = quiet s"
  by (simp_all add: quiet_def unconnected_def)

lemma attachTarget_eq:
  "attachTarget m r s =
     (case port_number (port m) of
        None \<Rightarrow> Inl (Uncaught InvalidPort, effects s @ [Log LogInvalidPort])
      | Some p \<Rightarrow>
          if p < 0 \<or> 65535 < p
          then Inl (Uncaught PortRangeError, effects s @ [Log (Attaching p)])
          else
            Inr (s\<lparr>sockets := sockets s @ [(m, r, False)],
                   effects := effects s @ [Log (Attaching p), Connecting (length (sockets s)) p]\<rparr>))"
  by (simp add: attachTarget_def Let_def die_def emit_def split: option.splits)

lemma quiet_forward:
  assumes "quiet s"
  shows "quiet (forwardBufferedMessages s)"
proof (cases "debuggerWriteCallback s")
  case None
  with assms show ?thesis by (simp add: forwardBufferedMessages_eq)
next
  case (Some st)
  then have eq: "forwardBufferedMessages s =
      s\<lparr>effects := effects s @ map (ToTarget st) (bufferedRequests s)\<rparr>"
    by (simp add: forwardBufferedMessages_eq)
  show ?thesis
    unfolding eq quiet_def
  proof (intro allI impI)
    fix n assume "unconnected n (s\<lparr>effects := effects s @ map (ToTarget st) (bufferedRequests s)\<rparr>)"
    then have "unconnected n s" by (simp add: unconnected_def)
    with assms have "sent_to (SocketStream n) (effects s) = []" "st \<noteq> SocketStream n"
      using Some by (auto simp: quiet_def)
    then show "sent_to (SocketStream n)
          (effects (s\<lparr>effects := effects s @ map (ToTarget st) (bufferedRequests s)\<rparr>)) = [] \<and>
          debuggerWriteCallback (s\<lparr>effects := effects s @ map (ToTarget st) (bufferedRequests s)\<rparr>)
            \<noteq> Some (SocketStream n)"
      using Some by simp
  qed
qed

lemma quiet_deliver_message [simp]: "quiet (deliver_message kind m s) = quiet s"
  by (simp add: deliver_message_def Let_def split: json_kind.splits)

lemma quiet_processDebuggerMessage: "quiet s \<Longrightarrow> quiet (processDebuggerMessage kind chunk s)"
  unfolding processDebuggerMessage_def
  by (rule debugger_loop_rule) simp_all

lemma quiet_launchTarget:
  assumes "quiet s" and "launchTarget m s = Inr s'"
  shows "quiet s'"
proof (cases "noDebug m")
  case True
  with assms(2) show ?thesis by (simp add: launchTarget_noDebug)
next
  case False
  from assms(2) have s': "s' = s\<lparr>children := children s + 1,
            effects := effects s @
              [Spawned (children s) 4
                 (case cwd m of Some d \<Rightarrow> if d \<noteq> [] then Some d else None | None \<Rightarrow> None),
               Log Launched, ToTarget (ChildStdin (children s)) m] @
              map (ToTarget (ChildStdin (children s))) (bufferedRequests s),
            debuggerWriteCallback := Some (ChildStdin (children s)),
            debugging := True\<rparr>"
    by (simp add: launchTarget_debug [OF False])
  have "unconnected n s" if "unconnected n s'" for n
    using that by (simp add: s' unconnected_def)
  with assms(1) show ?thesis
    by (simp add: quiet_def s')
qed

lemma quiet_attachTarget:
  assumes "quiet s" and "attachTarget m r s = Inr s'"
  shows "quiet s'"
proof -
  from assms(2) obtain p where
    s': "s' = s\<lparr>sockets := sockets s @ [(m, r, False)],
                 effects := effects s @ [Log (Attaching p), Connecting (length (sockets s)) p]\<rparr>"
    by (auto simp: attachTarget_eq split: option.splits if_splits)
  have "unconnected n s" if "unconnected n s'" for n
    using that by (auto simp: s' unconnected_def nth_append)
  with assms(1) show ?thesis
    by (simp add: quiet_def s')
qed

lemma handleWrapperRequest_eq:
  "handleWrapperRequest m s =
     (if command m = js ''disconnect'' then
        Inl (Exit (ExitNumber 0), effects (writeResponseMessage (seq m) True (command m) s))
      else if command m = js ''launch'' then
        (case launchTarget m s of Inl d \<Rightarrow> Inl d | Inr s' \<Rightarrow> Inr (True, s'))
      else if command m = js ''attach'' then
        (case attachTarget m 0 s of Inl d \<Rightarrow> Inl d | Inr s' \<Rightarrow> Inr (True, s'))
      else if \<not> debugging s then
        Inr (True, s\<lparr>bufferedRequests := bufferedRequests s @ [m]\<rparr>)
      else Inr (False, s))"
proof -
  have "js ''disconnect'' \<noteq> []" "js ''launch'' \<noteq> []" "js ''attach'' \<noteq> []"
    by (simp_all add: js_def)
  then show ?thesis
    by (auto simp: handleWrapperRequest_def die_def)
qed

lemma handleWrapperRequest_cases:
  assumes "handleWrapperRequest m s = Inr (h, s')"
  obtains (launch) "launchTarget m s = Inr s'" and "h" and "command m = js ''launch''"
    | (attach) "attachTarget m 0 s = Inr s'" and "h" and "command m = js ''attach''"
    | (buffer) "\<not> debugging s" and "s' = s\<lparr>bufferedRequests := bufferedRequests s @ [m]\<rparr>" and "h"
        and "command m \<noteq> js ''disconnect''" and "command m \<noteq> js ''launch''"
        and "command m \<noteq> js ''attach''"
    | (forward) "debugging s" and "s' = s" and "\<not> h"
        and "command m \<noteq> js ''disconnect''" and "command m \<noteq> js ''launch''"
        and "command m \<noteq> js ''attach''"
proof (cases "command m = js ''disconnect''")
  case True
  with assms show ?thesis by (simp add: handleWrapperRequest_eq)
next
  case nd: False
  show ?thesis
  proof (cases "command m = js ''launch''")
    case True
    with assms nd have "launchTarget m s = Inr s'" "h"
      by (simp_all add: handleWrapperRequest_eq split: sum.splits)
    with True show ?thesis by (intro launch)
  next
    case nl: False
    show ?thesis
    proof (cases "command m = js ''attach''")
      case True
      with assms nd nl have "attachTarget m 0 s = Inr s'" "h"
        by (simp_all add: handleWrapperRequest_eq split: sum.splits)
      with True show ?thesis by (intro attach)
    next
      case na: False
      show ?thesis
      proof (cases "debugging s")
        case True
        with assms nd nl na have "\<not> h" "s' = s"
          by (simp_all add: handleWrapperRequest_eq)
        with True nd nl na show ?thesis by (intro forward)
      next
        case False
        with assms nd nl na have "h" "s' = s\<lparr>bufferedRequests := bufferedRequests s @ [m]\<rparr>"
          by (simp_all add: handleWrapperRequest_eq)
        with False nd nl na show ?thesis by (intro buffer)
      qed
    qed
  qed
qed

lemma quiet_handleWrapperRequest:
  assumes "quiet s" and "handleWrapperRequest m s = Inr (h, s')"
  shows "quiet s'"
  using assms(2)
proof (cases rule: handleWrapperRequest_cases)
  case launch
  with assms(1) show ?thesis by (auto dest: quiet_launchTarget)
next
  case attach
  with assms(1) show ?thesis by (auto dest: quiet_attachTarget)
next
  case buffer
  with assms(1) show ?thesis by simp
next
  case forward
  with assms(1) show ?thesis by simp
qed

lemma dispatch_cases:
  assumes "dispatch m s = Inr s'"
  obtains (handled) "handleWrapperRequest m s = Inr (True, s')"
    | (sent) callback where "handleWrapperRequest m s = Inr (False, s)"
        and "debuggerWriteCallback s = Some callback"
        and "s' = emit (ToTarget callback (translateNuclideRequest m)) s"
    | (lost) "handleWrapperRequest m s = Inr (False, s)" and "debuggerWriteCallback s = None"
        and "s' = s"
proof (cases "handleWrapperRequest m s")
  case (Inl d)
  with assms show ?thesis by (simp add: dispatch_def)
next
  case (Inr hs)
  obtain h s1 where hs: "hs = (h, s1)" by (cases hs)
  show ?thesis
  proof (cases h)
    case True
    with assms Inr hs have "handleWrapperRequest m s = Inr (True, s')"
      by (simp add: dispatch_def)
    then show ?thesis by (rule handled)
  next
    case False
    from Inr hs have "handleWrapperRequest m s = Inr (h, s1)" by simp
    then have "s1 = s"
      using False by (cases rule: handleWrapperRequest_cases) simp_all
    with Inr hs False have hw: "handleWrapperRequest m s = Inr (False, s)" by simp
    show ?thesis
    proof (cases "debuggerWriteCallback s")
      case None
      with assms hw have "s' = s" by (simp add: dispatch_def)
      with hw None show ?thesis by (intro lost)
    next
      case (Some callback)
      with assms hw have "s' = emit (ToTarget callback (translateNuclideRequest m)) s"
        by (simp add: dispatch_def)
      with hw Some show ?thesis by (intro sent)
    qed
  qed
qed

lemma quiet_dispatch:
  assumes "quiet s" and "dispatch m s = Inr s'"
  shows "quiet s'"
  using assms(2)
proof (cases rule: dispatch_cases)
  case handled
  with assms(1) show ?thesis by (rule quiet_handleWrapperRequest)
next
  case (sent callback)
  with assms(1) show ?thesis by (simp add: quiet_emit_callback)
next
  case lost
  with assms(1) show ?thesis by simp
qed

lemma quiet_readContentHeader:
  "quiet s \<Longrightarrow> readContentHeader s = Inr s' \<Longrightarrow> quiet s'"
  by (auto simp: readContentHeader_def Let_def die_def split: option.splits if_splits)

lemma quiet_client_loop:
  "quiet s \<Longrightarrow> case client_loop parse s of Inl d \<Rightarrow> True | Inr s' \<Rightarrow> quiet s'"
proof (rule client_loop_rule [where Q = quiet and D = "\<lambda>d. True"])
  fix s m s' assume "quiet s" "dispatch m (emit (Log (ParsedRequest m)) s) = Inr s'"
  then show "quiet s'"
    using quiet_dispatch [of "emit (Log (ParsedRequest m)) s" m s'] by simp
qed (auto dest: quiet_readContentHeader)

lemma quiet_socket_connect:
  assumes "quiet s"
  shows "quiet (socket_connect n s)"
proof (cases "n < length (sockets s) \<and> \<not> snd (snd (sockets s ! n))")
  case False
  with assms show ?thesis by (auto simp: socket_connect_def)
next
  case True
  let ?m = "fst (sockets s ! n)"
  let ?r = "fst (snd (sockets s ! n))"
  have eq: "socket_connect n s =
      s\<lparr>sockets := (sockets s)[n := (?m, ?r, True)],
        effects := effects s @ [Log SocketConnected, ToTarget (SocketStream n) ?m] @
                   map (ToTarget (SocketStream n)) (bufferedRequests s) @
                   [ToClient (Response (sequenceNumber s + 1) (seq ?m) True (command ?m))],
        debuggerWriteCallback := Some (SocketStream n),
        debugging := True,
        sequenceNumber := sequenceNumber s + 1\<rparr>"
    using True
    by (simp add: socket_connect_def Let_def writeResponseMessage_def emit_def
          forwardBufferedMessages_eq)
  have "unconnected k s \<and> k \<noteq> n" if "unconnected k (socket_connect n s)" for k
    using that True by (auto simp: eq unconnected_def nth_list_update split: if_splits)
  with assms show ?thesis
    by (auto simp: quiet_def eq)
qed

lemma quiet_handle:
  "quiet s \<Longrightarrow> case handle P e s of Inl d \<Rightarrow> True | Inr s' \<Rightarrow> quiet s'"
proof (cases e)
  case (ClientData chunk)
  assume "quiet s"
  then have "quiet (s\<lparr>currentInputData := currentInputData s @ toString chunk\<rparr>)"
    by simp
  from quiet_client_loop [OF this] ClientData show ?thesis
    by (simp add: processClientMessage_def)
next
  case (SocketConnect n)
  assume "quiet s"
  then show ?thesis using SocketConnect by (simp add: quiet_socket_connect)
next
  case (SocketData n chunk)
  assume "quiet s"
  then show ?thesis using SocketData
    by (simp add: socket_data_def quiet_processDebuggerMessage)
next
  case (SocketError n err)
  assume "quiet s"
  then show ?thesis using SocketError
    by (auto simp: socket_failed_def Let_def die_def)
next
  case (TimerFired n)
  assume q: "quiet s"
  then have "quiet (s\<lparr>timers := (timers s)[n := None]\<rparr>)"
    by simp
  then show ?thesis using TimerFired
    by (auto simp: timer_fired_def split: option.splits sum.splits
          dest: quiet_attachTarget [rotated])
next
  case (ChildFd3Data n chunk)
  assume "quiet s"
  then show ?thesis using ChildFd3Data
    by (simp add: quiet_processDebuggerMessage)
next
  case (ChildStdout n chunk)
  assume "quiet s"
  then show ?thesis using ChildStdout
    by (simp add: writeOutputEvent_def Let_def)
next
  case (ChildStderr n chunk)
  assume "quiet s"
  then show ?thesis using ChildStderr
    by (simp add: writeOutputEvent_def Let_def)
next
  case (ChildError n t)
  assume "quiet s"
  then show ?thesis using ChildError by simp
qed (auto simp: socket_close_def socket_disconnect_def die_def)

lemma quiet_run:
  "quiet s \<Longrightarrow> run P es (Inr s) = Inr s' \<Longrightarrow> quiet s'"
proof (induction es arbitrary: s)
  case Nil
  then show ?case by simp
next
  case (Cons e es)
  show ?case
  proof (cases "handle P e s")
    case (Inl d)
    with Cons.prems show ?thesis by (cases es) simp_all
  next
    case (Inr t)
    with quiet_handle [OF Cons.prems(1), of P e] have "quiet t" by simp
    with Cons.IH [of t] Cons.prems Inr show ?thesis by simp
  qed
qed

lemma quiet_debug: "quiet debug"
  by (simp add: quiet_def debug_def init_def emit_def unconnected_def)

lemma socket_connect_eq:
  assumes "n < length (sockets s)" and "sockets s ! n = (attachMessage, retries, False)"
  shows "socket_connect n s =
      writeResponseMessage (seq attachMessage) True (command attachMessage)
        (s\<lparr>sockets := (sockets s)[n := (attachMessage, retries, True)],
           effects := effects s @ [Log SocketConnected, ToTarget (SocketStream n) attachMessage] @
                      map (ToTarget (SocketStream n)) (bufferedRequests s),
           debuggerWriteCallback := Some (SocketStream n),
           debugging := True\<rparr>)"
proof -
  have "socket_connect n s =
      writeResponseMessage (seq attachMessage) True (command attachMessage)
        ((forwardBufferedMessages
           ((emit (ToTarget (SocketStream n) attachMessage)
              (emit (Log SocketConnected)
                 (s\<lparr>sockets := (sockets s)[n := (attachMessage, retries, True)]\<rparr>)))
            \<lparr>debuggerWriteCallback := Some (SocketStream n)\<rparr>))\<lparr>debugging := True\<rparr>)"
    using assms by (simp add: socket_connect_def Let_def)
  also have "(forwardBufferedMessages
           ((emit (ToTarget (SocketStream n) attachMessage)
              (emit (Log SocketConnected)
                 (s\<lparr>sockets := (sockets s)[n := (attachMessage, retries, True)]\<rparr>)))
            \<lparr>debuggerWriteCallback := Some (SocketStream n)\<rparr>))\<lparr>debugging := True\<rparr> =
        s\<lparr>sockets := (sockets s)[n := (attachMessage, retries, True)],
           effects := effects s @ [Log SocketConnected, ToTarget (SocketStream n) attachMessage] @
                      map (ToTarget (SocketStream n)) (bufferedRequests s),
           debuggerWriteCallback := Some (SocketStream n),
           debugging := True\<rparr>"
    by (rule state.equality) (simp_all add: emit_def forwardBufferedMessages_eq)
  finally show ?thesis .
qed

definition attach_pending :: state where
  "attach_pending =
     \<lparr>sequenceNumber = 2, currentOutputData = [], currentInputData = [],
      currentContentLength = 0, bufferedRequests = [threads_request], debugging = False,
      debuggerWriteCallback = None, sockets = [(attach_request, 0, False)], timers = [],
      children = 0,
      effects = [Log Started, Log (ParsedRequest threads_request),
                 Log (ParsedRequest attach_request), Log (Attaching 9999), Connecting 0 9999]\<rparr>"

text \<open>
  C3. In a state reached by any run, take a socket made by \<^verbatim>\<open>attachTarget\<close> for the
  message \<open>attachMessage\<close> whose connect handler has not run yet. Nothing has been
  written to that socket so far. The connect handler then, in this order: writes the
  attach message to the socket; writes the buffered requests to it, in their order; sets
  \<^verbatim>\<open>debugging\<close>; and only then, from that state, writes to the client the response
  with \<^verbatim>\<open>request_seq\<close> the attach message's \<^verbatim>\<open>seq\<close>, \<^verbatim>\<open>success\<close> true and the next
  sequence number. So what the socket has received after the handler is the attach
  message followed by the buffered requests.
\<close>

theorem attach_connect_order:
  assumes "run P es (Inr debug) = Inr s"
    and "n < length (sockets s)" and "sockets s ! n = (attachMessage, retries, False)"
  shows "sent_to (SocketStream n) (effects s) = [] \<and>
         (\<exists>s5. socket_connect n s =
                 writeResponseMessage (seq attachMessage) True (command attachMessage) s5 \<and>
               debugging s5 \<and> debuggerWriteCallback s5 = Some (SocketStream n) \<and>
               effects s5 = effects s @
                 [Log SocketConnected, ToTarget (SocketStream n) attachMessage] @
                 map (ToTarget (SocketStream n)) (bufferedRequests s)) \<and>
         effects (socket_connect n s) = effects s @
           [Log SocketConnected, ToTarget (SocketStream n) attachMessage] @
           map (ToTarget (SocketStream n)) (bufferedRequests s) @
           [ToClient (Response (sequenceNumber s + 1) (seq attachMessage) True
                        (command attachMessage))] \<and>
         sent_to (SocketStream n) (effects (socket_connect n s)) =
           attachMessage # bufferedRequests s \<and>
         debugging (socket_connect n s)"
proof -
  have "quiet s" using quiet_run [OF quiet_debug assms(1)] .
  moreover have "unconnected n s" using assms(2,3) by (simp add: unconnected_def)
  ultimately have before: "sent_to (SocketStream n) (effects s) = []"
    by (simp add: quiet_def)
  let ?s5 = "s\<lparr>sockets := (sockets s)[n := (attachMessage, retries, True)],
           effects := effects s @ [Log SocketConnected, ToTarget (SocketStream n) attachMessage] @
                      map (ToTarget (SocketStream n)) (bufferedRequests s),
           debuggerWriteCallback := Some (SocketStream n),
           debugging := True\<rparr>"
  have eq: "socket_connect n s =
      writeResponseMessage (seq attachMessage) True (command attachMessage) ?s5"
    using assms(2,3) by (rule socket_connect_eq)
  have mid: "\<exists>s5. socket_connect n s =
                 writeResponseMessage (seq attachMessage) True (command attachMessage) s5 \<and>
               debugging s5 \<and> debuggerWriteCallback s5 = Some (SocketStream n) \<and>
               effects s5 = effects s @
                 [Log SocketConnected, ToTarget (SocketStream n) attachMessage] @
                 map (ToTarget (SocketStream n)) (bufferedRequests s)"
    by (rule exI [of _ ?s5]) (simp add: eq)
  have after: "effects (socket_connect n s) = effects s @
           [Log SocketConnected, ToTarget (SocketStream n) attachMessage] @
           map (ToTarget (SocketStream n)) (bufferedRequests s) @
           [ToClient (Response (sequenceNumber s + 1) (seq attachMessage) True
                        (command attachMessage))]"
    by (simp add: eq writeResponseMessage_def Let_def emit_def)
  have sent: "sent_to (SocketStream n) (effects (socket_connect n s)) =
           attachMessage # bufferedRequests s"
    by (simp add: after before)
  have dbg: "debugging (socket_connect n s)"
    by (simp add: eq writeResponseMessage_def Let_def emit_def)
  from before mid after sent dbg show ?thesis by blast
qed

theorem attach_connect_order_witness:
  "run example_platform [ClientData (client_frame ''{T}''), ClientData (client_frame ''{A}'')]
     (Inr debug) = Inr attach_pending \<and>
   sockets attach_pending ! 0 = (attach_request, 0, False) \<and>
   sent_to (SocketStream 0) (effects attach_pending) = [] \<and>
   sent_to (SocketStream 0) (effects (socket_connect 0 attach_pending)) =
     [attach_request, threads_request] \<and>
   effects (socket_connect 0 attach_pending) = effects attach_pending @
     [Log SocketConnected, ToTarget (SocketStream 0) attach_request,
      ToTarget (SocketStream 0) threads_request,
      ToClient (Response 3 2 True (js ''attach''))]"
proof -
  have r: "run example_platform
             [ClientData (client_frame ''{T}''), ClientData (client_frame ''{A}'')] (Inr debug) =
           Inr attach_pending"
    by code_simp
  have n: "0 < length (sockets attach_pending)"
    by (simp add: attach_pending_def)
  have k: "sockets attach_pending ! 0 = (attach_request, 0, False)"
    by (simp add: attach_pending_def)
  have b: "bufferedRequests attach_pending = [threads_request]"
    "sequenceNumber attach_pending = 2" "seq attach_request = 2"
    "command attach_request = js ''attach''"
    by (simp_all add: attach_pending_def attach_request_def)
  from attach_connect_order [OF r n k] r k show ?thesis
    by (simp add: b)
qed

subsection \<open>The queue of buffered requests\<close>

definition lifecycle :: "jsstring \<Rightarrow> bool" where
  "lifecycle c = (c = js ''disconnect'' \<or> c = js ''launch'' \<or> c = js ''attach'')"

text \<open>Requests handed to the loop body one after the other.\<close>

fun dispatch_all :: "request list \<Rightarrow> state \<Rightarrow> outcome" where
  "dispatch_all [] s = Inr s"
| "dispatch_all (m # ms) s =
     (case dispatch m s of Inl d \<Rightarrow> Inl d | Inr s' \<Rightarrow> dispatch_all ms s')"

text \<open>How often a request has been written to a target, on whatever stream.\<close>

fun forwards :: "request \<Rightarrow> effect list \<Rightarrow> nat" where
  "forwards r [] = 0"
| "forwards r (ToTarget st r' # es) = (if r' = r then 1 else 0) + forwards r es"
| "forwards r (e # es) = forwards r es"

text \<open>Once \<^verbatim>\<open>debugging\<close> is set, it stays set and the queue stays as it is.\<close>

definition frozen :: "request list \<Rightarrow> state \<Rightarrow> bool" where
  "frozen q s = (debugging s \<and> bufferedRequests s = q)"

lemma frozen_update [simp]:
  "frozen q (s\<lparr>currentInputData := b\<rparr>) = frozen q s"
  "frozen q (s\<lparr>currentOutputData := b\<rparr>) = frozen q s"
  "frozen q (s\<lparr>currentContentLength := k\<rparr>) = frozen q s"
  "frozen q (s\<lparr>sequenceNumber := k\<rparr>) = frozen q s"
  "frozen q (s\<lparr>timers := ts\<rparr>) = frozen q s"
  "frozen q (s\<lparr>sockets := ss\<rparr>) = frozen q s"
  "frozen q (s\<lparr>children := c\<rparr>) = frozen q s"
  "frozen q (s\<lparr>effects := es\<rparr>) = frozen q s"
  "frozen q (s\<lparr>debuggerWriteCallback := cb\<rparr>) = frozen q s"
  "frozen q (emit e s) = frozen q s"
  by (simp_all add: frozen_def emit_def)

lemma frozen_deliver_message [simp]: "frozen q (deliver_message kind m s) = frozen q s"
  by (simp add: deliver_message_def Let_def split: json_kind.splits)

lemma frozen_processDebuggerMessage:
  "frozen q s \<Longrightarrow> frozen q (processDebuggerMessage kind chunk s)"
  unfolding processDebuggerMessage_def
  by (rule debugger_loop_rule) simp_all

lemma frozen_launchTarget:
  "frozen q s \<Longrightarrow> launchTarget m s = Inr s' \<Longrightarrow> frozen q s'"
  by (cases "noDebug m") (auto simp: launchTarget_debug launchTarget_noDebug frozen_def)

lemma frozen_attachTarget:
  "attachTarget m r s = Inr s' \<Longrightarrow> frozen q s \<Longrightarrow> frozen q s'"
  by (auto simp: attachTarget_eq frozen_def split: option.splits if_splits)

lemma frozen_handleWrapperRequest:
  assumes "frozen q s" and "handleWrapperRequest m s = Inr (h, s')"
  shows "frozen q s'"
  using assms(2)
proof (cases rule: handleWrapperRequest_cases)
  case launch
  with assms(1) show ?thesis by (auto dest: frozen_launchTarget)
next
  case attach
  with assms(1) show ?thesis by (auto dest: frozen_attachTarget)
next
  case buffer
  with assms(1) show ?thesis by (simp add: frozen_def)
next
  case forward
  with assms(1) show ?thesis by simp
qed

lemma frozen_dispatch:
  assumes "frozen q s" and "dispatch m s = Inr s'"
  shows "frozen q s'"
  using assms(2)
proof (cases rule: dispatch_cases)
  case handled
  with assms(1) show ?thesis by (rule frozen_handleWrapperRequest)
next
  case (sent callback)
  with assms(1) show ?thesis by simp
next
  case lost
  with assms(1) show ?thesis by simp
qed

lemma frozen_readContentHeader:
  "frozen q s \<Longrightarrow> readContentHeader s = Inr s' \<Longrightarrow> frozen q s'"
  by (auto simp: readContentHeader_def Let_def die_def split: option.splits if_splits)

lemma frozen_client_loop:
  "frozen q s \<Longrightarrow> case client_loop parse s of Inl d \<Rightarrow> True | Inr s' \<Rightarrow> frozen q s'"
proof (rule client_loop_rule [where Q = "frozen q" and D = "\<lambda>d. True"])
  fix s m s' assume "frozen q s" "dispatch m (emit (Log (ParsedRequest m)) s) = Inr s'"
  then show "frozen q s'"
    using frozen_dispatch [of q "emit (Log (ParsedRequest m)) s" m s'] by simp
qed (auto dest: frozen_readContentHeader)

lemma frozen_socket_connect: "frozen q s \<Longrightarrow> frozen q (socket_connect n s)"
  by (auto simp: socket_connect_def Let_def writeResponseMessage_def
        forwardBufferedMessages_eq frozen_def emit_def split: option.splits)

lemma frozen_handle:
  "frozen q s \<Longrightarrow> case handle P e s of Inl d \<Rightarrow> True | Inr s' \<Rightarrow> frozen q s'"
proof (cases e)
  case (ClientData chunk)
  assume "frozen q s"
  then have "frozen q (s\<lparr>currentInputData := currentInputData s @ toString chunk\<rparr>)"
    by simp
  from frozen_client_loop [OF this] ClientData show ?thesis
    by (simp add: processClientMessage_def)
next
  case (SocketConnect n)
  assume "frozen q s"
  then show ?thesis using SocketConnect by (simp add: frozen_socket_connect)
next
  case (SocketData n chunk)
  assume "frozen q s"
  then show ?thesis using SocketData
    by (simp add: socket_data_def frozen_processDebuggerMessage)
next
  case (SocketError n err)
  assume "frozen q s"
  then show ?thesis using SocketError
    by (auto simp: socket_failed_def Let_def die_def)
next
  case (TimerFired n)
  assume "frozen q s"
  then show ?thesis using TimerFired
    by (auto simp: timer_fired_def split: option.splits sum.splits dest: frozen_attachTarget)
next
  case (ChildFd3Data n chunk)
  assume "frozen q s"
  then show ?thesis using ChildFd3Data
    by (simp add: frozen_processDebuggerMessage)
next
  case (ChildStdout n chunk)
  assume "frozen q s"
  then show ?thesis using ChildStdout by (simp add: writeOutputEvent_def Let_def)
next
  case (ChildStderr n chunk)
  assume "frozen q s"
  then show ?thesis using ChildStderr by (simp add: writeOutputEvent_def Let_def)
next
  case (ChildError n t)
  assume "frozen q s"
  then show ?thesis using ChildError by simp
qed (auto simp: socket_close_def socket_disconnect_def die_def)

lemma frozen_run:
  "frozen q s \<Longrightarrow> run P es (Inr s) = Inr s' \<Longrightarrow> frozen q s'"
proof (induction es arbitrary: s)
  case Nil
  then show ?case by simp
next
  case (Cons e es)
  show ?case
  proof (cases "handle P e s")
    case (Inl d)
    with Cons.prems show ?thesis by (cases es) simp_all
  next
    case (Inr t)
    with frozen_handle [OF Cons.prems(1), of P e] have "frozen q t" by simp
    with Cons.IH [of t] Cons.prems Inr show ?thesis by simp
  qed
qed

lemma dispatch_buffers:
  assumes "\<not> debugging s" and "\<not> lifecycle (command m)"
  shows "dispatch m s = Inr (s\<lparr>bufferedRequests := bufferedRequests s @ [m]\<rparr>)"
  using assms by (simp add: dispatch_def handleWrapperRequest_eq lifecycle_def)

lemma dispatch_all_buffers:
  assumes "\<not> debugging s" and "\<forall>m \<in> set ms. \<not> lifecycle (command m)"
  shows "dispatch_all ms s = Inr (s\<lparr>bufferedRequests := bufferedRequests s @ ms\<rparr>)"
  using assms
proof (induction ms arbitrary: s)
  case Nil
  then show ?case by simp
next
  case (Cons m ms)
  let ?t = "s\<lparr>bufferedRequests := bufferedRequests s @ [m]\<rparr>"
  have "dispatch m s = Inr ?t"
    using Cons.prems by (intro dispatch_buffers) simp_all
  moreover have "dispatch_all ms ?t = Inr (?t\<lparr>bufferedRequests := bufferedRequests ?t @ ms\<rparr>)"
    using Cons.prems by (intro Cons.IH) simp_all
  ultimately show ?case by simp
qed

fun stays :: "request list \<Rightarrow> outcome \<Rightarrow> bool" where
  "stays q (Inl d) = True"
| "stays q (Inr s) = (debugging s \<and> bufferedRequests s = q)"

lemma stays_run: "frozen q s \<Longrightarrow> stays q (run P es (Inr s))"
  using frozen_run [of q s P es] by (cases "run P es (Inr s)") (simp_all add: frozen_def)

text \<open>
  A state reached after a first connection: the first of two attach sockets has
  connected and been sent the queue, the second has not connected yet.
\<close>

definition connected_once :: state where
  "connected_once =
     \<lparr>sequenceNumber = 4, currentOutputData = [], currentInputData = [],
      currentContentLength = 0, bufferedRequests = [threads_request], debugging = True,
      debuggerWriteCallback = Some (SocketStream 0),
      sockets = [(attach_request, 0, True), (attach_request, 0, False)], timers = [],
      children = 0,
      effects = [Log Started, Log (ParsedRequest threads_request),
                 Log (ParsedRequest attach_request), Log (Attaching 9999), Connecting 0 9999,
                 Log (ParsedRequest attach_request), Log (Attaching 9999), Connecting 1 9999,
                 Log SocketConnected, ToTarget (SocketStream 0) attach_request,
                 ToTarget (SocketStream 0) threads_request,
                 ToClient (Response 4 2 True (js ''attach''))]\<rparr>"

text \<open>
  C1, as the code has it. Requests other than \<^verbatim>\<open>disconnect\<close>, \<^verbatim>\<open>launch\<close> and
  \<^verbatim>\<open>attach\<close> that arrive while \<^verbatim>\<open>debugging\<close> is false are appended to the queue in
  the order of their arrival, and nothing else happens. In whatever state \<open>t\<close> the
  wrapper is, before or after a first connection, a launch in debug mode writes the
  launch message followed by the whole queue of \<open>t\<close>, in order and each entry once, to
  the new child, and the connect handler of a socket does the same with the attach
  message on that socket. After either, \<^verbatim>\<open>debugging\<close> stays set and the queue keeps
  its content through every event: it is not emptied, so the next launch or connect
  writes it again.
\<close>

theorem buffered_requests_forwarded_in_order:
  "(\<not> debugging s \<and> (\<forall>m \<in> set ms. \<not> lifecycle (command m)) \<longrightarrow>
      dispatch_all ms s = Inr (s\<lparr>bufferedRequests := bufferedRequests s @ ms\<rparr>)) \<and>
   (\<not> noDebug l \<longrightarrow>
      (\<exists>s' dir. launchTarget l t = Inr s' \<and>
         effects s' = effects t @ [Spawned (children t) 4 dir, Log Launched] @
           map (ToTarget (ChildStdin (children t))) (l # bufferedRequests t) \<and>
         stays (bufferedRequests t) (run P es (Inr s')))) \<and>
   (n < length (sockets t) \<and> sockets t ! n = (a, r, False) \<longrightarrow>
      effects (socket_connect n t) =
        effects t @ [Log SocketConnected] @
        map (ToTarget (SocketStream n)) (a # bufferedRequests t) @
        [ToClient (Response (sequenceNumber t + 1) (seq a) True (command a))] \<and>
      stays (bufferedRequests t) (run P es (Inr (socket_connect n t))))"
proof -
  let ?q = "bufferedRequests t"
  have buf: "\<not> debugging s \<and> (\<forall>m \<in> set ms. \<not> lifecycle (command m)) \<longrightarrow>
      dispatch_all ms s = Inr (s\<lparr>bufferedRequests := bufferedRequests s @ ms\<rparr>)"
    using dispatch_all_buffers [of s ms] by blast
  have launch: "\<exists>s' dir. launchTarget l t = Inr s' \<and>
         effects s' = effects t @ [Spawned (children t) 4 dir, Log Launched] @
           map (ToTarget (ChildStdin (children t))) (l # ?q) \<and>
         stays ?q (run P es (Inr s'))" if l: "\<not> noDebug l"
  proof -
    let ?dir = "case cwd l of Some d \<Rightarrow> if d \<noteq> [] then Some d else None | None \<Rightarrow> None"
    let ?s' = "t\<lparr>children := children t + 1,
            effects := effects t @
              [Spawned (children t) 4 ?dir, Log Launched, ToTarget (ChildStdin (children t)) l] @
              map (ToTarget (ChildStdin (children t))) (bufferedRequests t),
            debuggerWriteCallback := Some (ChildStdin (children t)),
            debugging := True\<rparr>"
    have 1: "launchTarget l t = Inr ?s'"
      using l by (rule launchTarget_debug)
    have 2: "effects ?s' = effects t @ [Spawned (children t) 4 ?dir, Log Launched] @
           map (ToTarget (ChildStdin (children t))) (l # ?q)"
      by simp
    have "frozen ?q ?s'" by (simp add: frozen_def)
    then have 3: "stays ?q (run P es (Inr ?s'))" by (rule stays_run)
    from 1 2 3 show ?thesis by blast
  qed
  have connect: "effects (socket_connect n t) =
        effects t @ [Log SocketConnected] @
        map (ToTarget (SocketStream n)) (a # ?q) @
        [ToClient (Response (sequenceNumber t + 1) (seq a) True (command a))] \<and>
      stays ?q (run P es (Inr (socket_connect n t)))"
    if n: "n < length (sockets t) \<and> sockets t ! n = (a, r, False)"
  proof -
    from n have "n < length (sockets t)" "sockets t ! n = (a, r, False)" by simp_all
    note eq = socket_connect_eq [OF this]
    have 1: "effects (socket_connect n t) =
        effects t @ [Log SocketConnected] @
        map (ToTarget (SocketStream n)) (a # ?q) @
        [ToClient (Response (sequenceNumber t + 1) (seq a) True (command a))]"
      by (simp add: eq writeResponseMessage_def Let_def emit_def)
    have "frozen ?q (socket_connect n t)"
      by (simp add: eq writeResponseMessage_def Let_def frozen_def)
    then have "stays ?q (run P es (Inr (socket_connect n t)))" by (rule stays_run)
    with 1 show ?thesis by blast
  qed
  from buf launch connect show ?thesis by blast
qed

theorem buffered_requests_forwarded_in_order_witness:
  "\<not> debugging attach_pending \<and> \<not> lifecycle (command nuclide_request) \<and>
   dispatch_all [nuclide_request] attach_pending =
     Inr (attach_pending\<lparr>bufferedRequests := [threads_request, nuclide_request]\<rparr>) \<and>
   run example_platform
     [ClientData (client_frame ''{T}''), ClientData (client_frame ''{A}''),
      ClientData (client_frame ''{A}''), SocketConnect 0] (Inr debug) = Inr connected_once \<and>
   debugging connected_once \<and> \<not> noDebug launch_request \<and>
   sockets connected_once ! 1 = (attach_request, 0, False) \<and>
   sent_to (SocketStream 0) (effects connected_once) = [attach_request, threads_request] \<and>
   effects (socket_connect 1 connected_once) =
     effects connected_once @
     [Log SocketConnected, ToTarget (SocketStream 1) attach_request,
      ToTarget (SocketStream 1) threads_request,
      ToClient (Response 5 2 True (js ''attach''))] \<and>
   stays [threads_request]
     (run example_platform [ClientData (client_frame ''{T}'')]
        (Inr (socket_connect 1 connected_once))) \<and>
   (\<exists>s' dir. launchTarget launch_request connected_once = Inr s' \<and>
      effects s' = effects connected_once @
        [Spawned 0 4 dir, Log Launched, ToTarget (ChildStdin 0) launch_request,
         ToTarget (ChildStdin 0) threads_request] \<and>
      stays [threads_request] (run example_platform [ClientData (client_frame ''{T}'')] (Inr s')))"
proof -
  have d: "\<not> debugging attach_pending" by (simp add: attach_pending_def)
  have c: "\<not> lifecycle (command nuclide_request)" by code_simp
  then have ms: "\<forall>m \<in> set [nuclide_request]. \<not> lifecycle (command m)" by simp
  have reach: "run example_platform
     [ClientData (client_frame ''{T}''), ClientData (client_frame ''{A}''),
      ClientData (client_frame ''{A}''), SocketConnect 0] (Inr debug) = Inr connected_once"
    by code_simp
  have dbg: "debugging connected_once" by (simp add: connected_once_def)
  have l: "\<not> noDebug launch_request" by (simp add: launch_request_def)
  have k: "1 < length (sockets connected_once) \<and>
           sockets connected_once ! 1 = (attach_request, 0, False)"
    by (simp add: connected_once_def)
  have before: "sent_to (SocketStream 0) (effects connected_once) =
      [attach_request, threads_request]"
    by (simp add: connected_once_def)
  have b: "bufferedRequests attach_pending = [threads_request]"
    "bufferedRequests connected_once = [threads_request]"
    "sequenceNumber connected_once = 4" "children connected_once = 0"
    "seq attach_request = 2" "command attach_request = js ''attach''"
    by (simp_all add: attach_pending_def connected_once_def attach_request_def)
  note claim = buffered_requests_forwarded_in_order [where s = attach_pending
      and ms = "[nuclide_request]" and l = launch_request and t = connected_once
      and P = example_platform and es = "[ClientData (client_frame ''{T}'')]"
      and n = 1 and a = attach_request and r = 0]
  from claim d ms have 1: "dispatch_all [nuclide_request] attach_pending =
     Inr (attach_pending\<lparr>bufferedRequests := [threads_request, nuclide_request]\<rparr>)"
    by (simp add: b)
  from claim k have 2: "effects (socket_connect 1 connected_once) =
     effects connected_once @
     [Log SocketConnected, ToTarget (SocketStream 1) attach_request,
      ToTarget (SocketStream 1) threads_request,
      ToClient (Response 5 2 True (js ''attach''))] \<and>
   stays [threads_request]
     (run example_platform [ClientData (client_frame ''{T}'')]
        (Inr (socket_connect 1 connected_once)))"
    by (simp add: b)
  from claim l have 3: "\<exists>s' dir. launchTarget launch_request connected_once = Inr s' \<and>
      effects s' = effects connected_once @
        [Spawned 0 4 dir, Log Launched, ToTarget (ChildStdin 0) launch_request,
         ToTarget (ChildStdin 0) threads_request] \<and>
      stays [threads_request] (run example_platform [ClientData (client_frame ''{T}'')] (Inr s'))"
    by (simp add: b)
  from d c 1 reach dbg l k before 2 3 show ?thesis by blast
qed

text \<open>
  Against C1 as stated: a request buffered before a launch is written to a target again
  by a second launch, since the first launch left it in the queue.
\<close>

theorem second_launch_forwards_again:
  "forwards threads_request
     (trace (run example_platform
        [ClientData (client_frame ''{T}''), ClientData (client_frame ''{L}''),
         ClientData (client_frame ''{L}'')] (Inr debug))) = 2"
  by code_simp

subsection \<open>Chunks of the client's stream\<close>

text \<open>
  A frame whose payload \<^verbatim>\<open>{"a":"e"}\<close>, with e-acute for the e, is ten bytes long in
  UTF-8 (the e-acute is the two bytes 195 169), given in two parts that separate these
  two bytes; and a \<^verbatim>\<open>JSON.parse\<close> that accepts every text and keeps it in \<open>body\<close>.
\<close>

definition accented_head :: buffer where
  "accented_head =
     ascii ''Content-Length: 10'' @ [13, 10, 13, 10] @ [123, 34, 97, 34, 58, 34, 195]"

definition accented_tail :: buffer where
  "accented_tail = [169, 34, 125]"

definition verbatim_request :: "jsstring \<Rightarrow> request" where
  "verbatim_request m =
     \<lparr>seq = 0, command = js ''evaluate'', port = None, noDebug = False, cwd = None, body = m\<rparr>"

definition verbatim_parse :: "jsstring \<Rightarrow> request option" where
  "verbatim_parse m = Some (verbatim_request m)"

definition verbatim_platform :: platform where
  "verbatim_platform = \<lparr>parse_request = verbatim_parse, target_json = example_kind\<rparr>"

lemma toString_accented_head:
  "toString accented_head =
     js ''Content-Length: 10'' @ [13, 10, 13, 10, 123, 34, 97, 34, 58, 34, 65533]"
  by (simp add: toString_def accented_head_def ascii_def js_def is_cont_def REPLACEMENT_def)

lemma toString_accented_tail: "toString accented_tail = [65533, 34, 125]"
  by (simp add: toString_def accented_tail_def is_cont_def REPLACEMENT_def)

lemma toString_accented_whole:
  "toString (accented_head @ accented_tail) =
     js ''Content-Length: 10'' @ [13, 10, 13, 10, 123, 34, 97, 34, 58, 34, 233, 34, 125]"
  by (simp add: toString_def accented_head_def accented_tail_def ascii_def js_def is_cont_def
        REPLACEMENT_def)

lemma accented_whole_loop:
  "client_loop verbatim_parse
     (debug\<lparr>currentInputData :=
        js ''Content-Length: 10'' @ [13, 10, 13, 10, 123, 34, 97, 34, 58, 34, 233, 34, 125]\<rparr>) =
     Inr (debug\<lparr>sequenceNumber := 1, currentContentLength := 10,
                currentInputData := [123, 34, 97, 34, 58, 34, 233, 34, 125]\<rparr>)"
  by (subst client_loop.simps)
     (simp add: readContentHeader_def Let_def indexOf_def TWO_CRLF_def CONTENT_LENGTH_def
        js_def is_digit_def digits_value_def debug_def init_def emit_def)

lemma accented_head_loop:
  "client_loop verbatim_parse
     (debug\<lparr>currentInputData :=
        js ''Content-Length: 10'' @ [13, 10, 13, 10, 123, 34, 97, 34, 58, 34, 65533]\<rparr>) =
     Inr (debug\<lparr>sequenceNumber := 1, currentContentLength := 10,
                currentInputData := [123, 34, 97, 34, 58, 34, 65533]\<rparr>)"
  by (subst client_loop.simps)
     (simp add: readContentHeader_def Let_def indexOf_def TWO_CRLF_def CONTENT_LENGTH_def
        js_def is_digit_def digits_value_def debug_def init_def emit_def)

lemma accented_tail_loop:
  "client_loop verbatim_parse
     (debug\<lparr>sequenceNumber := 1, currentContentLength := 10,
            currentInputData := [123, 34, 97, 34, 58, 34, 65533, 65533, 34, 125]\<rparr>) =
     Inr (debug\<lparr>sequenceNumber := 1,
            bufferedRequests :=
              [verbatim_request [123, 34, 97, 34, 58, 34, 65533, 65533, 34, 125]],
            effects :=
              [Log Started,
               Log (ParsedRequest
                      (verbatim_request [123, 34, 97, 34, 58, 34, 65533, 65533, 34, 125]))]\<rparr>)"
  apply (subst client_loop.simps)
  apply (simp add: Let_def verbatim_parse_def dispatch_buffers lifecycle_def
      verbatim_request_def js_def debug_def init_def emit_def)
  apply (subst client_loop.simps)
  apply (simp add: readContentHeader_def Let_def indexOf_Nil TWO_CRLF_def)
  done

lemma debug_input: "currentInputData debug = []"
  by (simp add: debug_def init_def emit_def)

text \<open>
  C7. Read at once, the frame is decoded to nine units of payload, one fewer than the
  ten the header counts, and the loop waits: no request is parsed. Read in the two parts,
  each byte of the e-acute is decoded to U+FFFD on its own, the payload has ten units,
  and a request with two U+FFFD in place of the e-acute is parsed and buffered.
\<close>

theorem split_character_differs:
  "run verbatim_platform [ClientData (accented_head @ accented_tail)] (Inr debug) =
     Inr (debug\<lparr>sequenceNumber := 1, currentContentLength := 10,
                currentInputData := [123, 34, 97, 34, 58, 34, 233, 34, 125]\<rparr>) \<and>
   run verbatim_platform [ClientData accented_head, ClientData accented_tail] (Inr debug) =
     Inr (debug\<lparr>sequenceNumber := 1,
            bufferedRequests :=
              [verbatim_request [123, 34, 97, 34, 58, 34, 65533, 65533, 34, 125]],
            effects :=
              [Log Started,
               Log (ParsedRequest
                      (verbatim_request [123, 34, 97, 34, 58, 34, 65533, 65533, 34, 125]))]\<rparr>)"
proof
  have p: "parse_request verbatim_platform = verbatim_parse"
    by (simp add: verbatim_platform_def)
  show "run verbatim_platform [ClientData (accented_head @ accented_tail)] (Inr debug) =
     Inr (debug\<lparr>sequenceNumber := 1, currentContentLength := 10,
                currentInputData := [123, 34, 97, 34, 58, 34, 233, 34, 125]\<rparr>)"
    unfolding run.simps handle.simps processClientMessage_def debug_input p
      toString_accented_whole append_Nil
    by (rule accented_whole_loop)
next
  have p: "parse_request verbatim_platform = verbatim_parse"
    by (simp add: verbatim_platform_def)
  let ?s1 = "debug\<lparr>sequenceNumber := 1, currentContentLength := 10,
                currentInputData := [123, 34, 97, 34, 58, 34, 65533]\<rparr>"
  have first: "handle verbatim_platform (ClientData accented_head) debug = Inr ?s1"
    unfolding handle.simps processClientMessage_def debug_input p
      toString_accented_head append_Nil
    by (rule accented_head_loop)
  have upd: "?s1\<lparr>currentInputData := currentInputData ?s1 @ toString accented_tail\<rparr> =
      debug\<lparr>sequenceNumber := 1, currentContentLength := 10,
            currentInputData := [123, 34, 97, 34, 58, 34, 65533, 65533, 34, 125]\<rparr>"
    unfolding toString_accented_tail by simp
  have second: "handle verbatim_platform (ClientData accented_tail) ?s1 =
     Inr (debug\<lparr>sequenceNumber := 1,
            bufferedRequests :=
              [verbatim_request [123, 34, 97, 34, 58, 34, 65533, 65533, 34, 125]],
            effects :=
              [Log Started,
               Log (ParsedRequest
                      (verbatim_request [123, 34, 97, 34, 58, 34, 65533, 65533, 34, 125]))]\<rparr>)"
    unfolding handle.simps processClientMessage_def p upd
    by (rule accented_tail_loop)
  show "run verbatim_platform [ClientData accented_head, ClientData accented_tail] (Inr debug) =
     Inr (debug\<lparr>sequenceNumber := 1,
            bufferedRequests :=
              [verbatim_request [123, 34, 97, 34, 58, 34, 65533, 65533, 34, 125]],
            effects :=
              [Log Started,
               Log (ParsedRequest
                      (verbatim_request [123, 34, 97, 34, 58, 34, 65533, 65533, 34, 125]))]\<rparr>)"
    by (simp only: run.simps first second)
qed

subsection \<open>Decoded text, in pieces and at once\<close>

text \<open>More text at the end of the input buffer.\<close>

definition appended :: "jsstring \<Rightarrow> state \<Rightarrow> state" where
  "appended b s = s\<lparr>currentInputData := currentInputData s @ b\<rparr>"

fun appended_out :: "jsstring \<Rightarrow> outcome \<Rightarrow> outcome" where
  "appended_out b (Inl d) = Inl d"
| "appended_out b (Inr s) = Inr (appended b s)"

lemma appended_simps [simp]:
  "sequenceNumber (appended b s) = sequenceNumber s"
  "currentOutputData (appended b s) = currentOutputData s"
  "currentInputData (appended b s) = currentInputData s @ b"
  "currentContentLength (appended b s) = currentContentLength s"
  "bufferedRequests (appended b s) = bufferedRequests s"
  "debugging (appended b s) = debugging s"
  "debuggerWriteCallback (appended b s) = debuggerWriteCallback s"
  "sockets (appended b s) = sockets s"
  "timers (appended b s) = timers s"
  "children (appended b s) = children s"
  "effects (appended b s) = effects s"
  by (simp_all add: appended_def)

lemma take_within: "n \<le> length l \<Longrightarrow> take n (l @ b) = take n l"
  by simp

lemma indexOf_from_append:
  "0 \<le> indexOf_from i pat s \<Longrightarrow> indexOf_from i pat (s @ b) = indexOf_from i pat s"
proof (induction s arbitrary: i)
  case Nil
  then show ?case by (cases b) (auto split: if_splits)
next
  case (Cons x xs)
  show ?case
  proof (cases "take (length pat) (x # xs) = pat")
    case True
    then have "length (take (length pat) (x # xs)) = length pat" by simp
    then have "length pat \<le> length (x # xs)" by simp
    then have "take (length pat) ((x # xs) @ b) = take (length pat) (x # xs)"
      by (rule take_within)
    with True show ?thesis by simp
  next
    case False
    with Cons.prems have found: "0 \<le> indexOf_from (Suc i) pat xs" by simp
    with indexOf_from_range [of "Suc i" pat xs]
    have "indexOf_from (Suc i) pat xs + int (length pat) \<le> int (Suc i) + int (length xs)"
      and "int (Suc i) \<le> indexOf_from (Suc i) pat xs" by auto
    then have len: "length pat \<le> length xs" by linarith
    have "take (length pat) ((x # xs) @ b) \<noteq> pat"
    proof
      assume eq: "take (length pat) ((x # xs) @ b) = pat"
      from len have "length pat \<le> length (x # xs)" by simp
      then have "take (length pat) ((x # xs) @ b) = take (length pat) (x # xs)"
        by (rule take_within)
      with eq False show False by simp
    qed
    with False Cons.IH [OF found] show ?thesis by simp
  qed
qed

lemma indexOf_append:
  "0 < indexOf s pat \<Longrightarrow> indexOf (s @ b) pat = indexOf s pat"
  by (simp add: indexOf_def indexOf_from_append)

lemma readContentHeader_idle:
  "\<not> 0 < indexOf (currentInputData s) TWO_CRLF \<Longrightarrow> readContentHeader s = Inr s"
  by (simp add: readContentHeader_def Let_def)

lemma readContentHeader_appended:
  assumes "0 < indexOf (currentInputData s) TWO_CRLF"
  shows "readContentHeader (appended b s) = appended_out b (readContentHeader s)"
proof -
  let ?idx = "indexOf (currentInputData s) TWO_CRLF"
  have idx: "indexOf (currentInputData s @ b) TWO_CRLF = ?idx"
    using assms by (rule indexOf_append)
  have bound: "nat ?idx + length TWO_CRLF \<le> length (currentInputData s)"
    using assms indexOf_bound [of "currentInputData s" TWO_CRLF] by simp
  then have le: "nat ?idx \<le> length (currentInputData s)" by simp
  show ?thesis
    using assms bound le
    by (simp add: readContentHeader_def Let_def idx die_def appended_def split: option.splits)
qed

lemma launchTarget_appended:
  "launchTarget m (appended b s) = appended_out b (launchTarget m s)"
  by (cases "noDebug m")
     (simp_all add: launchTarget_debug launchTarget_noDebug appended_def)

lemma attachTarget_appended:
  "attachTarget m r (appended b s) = appended_out b (attachTarget m r s)"
  by (simp add: attachTarget_eq appended_def split: option.splits)

lemma handleWrapperRequest_appended:
  "handleWrapperRequest m (appended b s) =
     (case handleWrapperRequest m s of Inl d \<Rightarrow> Inl d | Inr (h, t) \<Rightarrow> Inr (h, appended b t))"
  by (simp add: handleWrapperRequest_eq launchTarget_appended attachTarget_appended
        writeResponseMessage_def Let_def emit_def split: sum.splits)

lemma dispatch_appended:
  "dispatch m (appended b s) = appended_out b (dispatch m s)"
  by (simp add: dispatch_def handleWrapperRequest_appended split: sum.splits option.splits)

lemma emit_appended: "emit e (appended b s) = appended b (emit e s)"
  by (simp add: emit_def appended_def)

text \<open>
  The loop, one turn at a time. \<open>payload\<close> is the part of the body after the header has
  been looked for.
\<close>

definition payload :: "(jsstring \<Rightarrow> request option) \<Rightarrow> state \<Rightarrow> outcome + state" where
  "payload parse s1 =
     (let len = currentContentLength s1 in
      if len = 0 \<or> length (currentInputData s1) < len then Inl (Inr s1)
      else
        (let message = take len (currentInputData s1) in
         case parse message of
           None \<Rightarrow> Inl (die (Uncaught (JsonSyntaxError message)) s1)
         | Some requestMsg \<Rightarrow>
             (case dispatch requestMsg (emit (Log (ParsedRequest requestMsg)) s1) of
                Inl d \<Rightarrow> Inl (Inl d)
              | Inr s2 \<Rightarrow>
                  Inr (s2\<lparr>currentContentLength := 0,
                          currentInputData := drop len (currentInputData s2)\<rparr>))))"

lemma client_loop_turn:
  "client_loop parse s =
     (case (if currentContentLength s = 0 then readContentHeader s else Inr s) of
        Inl d \<Rightarrow> Inl d
      | Inr s1 \<Rightarrow> (case payload parse s1 of Inl out \<Rightarrow> out | Inr s3 \<Rightarrow> client_loop parse s3))"
  by (subst client_loop.simps)
     (simp add: payload_def Let_def split: sum.splits option.splits)

lemma payload_shorter:
  "payload parse s1 = Inr s3 \<Longrightarrow> length (currentInputData s3) < length (currentInputData s1)"
  by (auto simp: payload_def Let_def split: if_splits option.splits sum.splits
        dest!: dispatch_input)

lemma payload_appended:
  assumes "payload parse s1 = Inr s3"
  shows "payload parse (appended b s1) = Inr (appended b s3)"
proof -
  let ?len = "currentContentLength s1"
  from assms have len: "?len \<noteq> 0" "?len \<le> length (currentInputData s1)"
    by (auto simp: payload_def Let_def split: if_splits)
  from assms obtain m s2 where m: "parse (take ?len (currentInputData s1)) = Some m"
    and d: "dispatch m (emit (Log (ParsedRequest m)) s1) = Inr s2"
    and s3: "s3 = s2\<lparr>currentContentLength := 0, currentInputData := drop ?len (currentInputData s2)\<rparr>"
    using len by (auto simp: payload_def Let_def split: option.splits sum.splits)
  from d have in2: "currentInputData s2 = currentInputData s1" by (auto dest: dispatch_input)
  have d': "dispatch m (emit (Log (ParsedRequest m)) (appended b s1)) = Inr (appended b s2)"
    by (simp add: emit_appended dispatch_appended d)
  have "(appended b s2)\<lparr>currentContentLength := 0,
          currentInputData := drop ?len (currentInputData (appended b s2))\<rparr> = appended b s3"
    using len by (simp add: s3 in2 appended_def)
  then show ?thesis
    using len m d' by (simp add: payload_def Let_def take_within)
qed

lemma payload_appended_done:
  assumes "payload parse s1 = Inl out"
    and "currentContentLength s1 \<noteq> 0" and "currentContentLength s1 \<le> length (currentInputData s1)"
  shows "payload parse (appended b s1) = Inl out \<and> (\<exists>d. out = Inl d)"
proof (cases "parse (take (currentContentLength s1) (currentInputData s1))")
  case None
  with assms show ?thesis
    by (auto simp: payload_def Let_def take_within die_def)
next
  case (Some m)
  show ?thesis
  proof (cases "dispatch m (emit (Log (ParsedRequest m)) s1)")
    case (Inl d)
    with assms Some show ?thesis
      by (auto simp: payload_def Let_def take_within emit_appended dispatch_appended)
  next
    case (Inr s2)
    with assms Some show ?thesis
      by (simp add: payload_def Let_def)
  qed
qed

text \<open>
  \<open>zero_free\<close>: on the way of the loop from a state, no header is read that gives the
  length 0. (After such a header the loop stops with the rest of the buffer unread, and
  goes on with it at the next read only.)
\<close>

function zero_free :: "(jsstring \<Rightarrow> request option) \<Rightarrow> state \<Rightarrow> bool" where
  "zero_free parse s =
     (case (if currentContentLength s = 0 then readContentHeader s else Inr s) of
        Inl d \<Rightarrow> True
      | Inr s1 \<Rightarrow>
          if currentContentLength s1 = 0
          then \<not> 0 < indexOf (currentInputData s) TWO_CRLF
          else (case payload parse s1 of Inl out \<Rightarrow> True | Inr s3 \<Rightarrow> zero_free parse s3))"
  by pat_completeness auto
termination
  apply (relation "measure (\<lambda>(parse, s). length (currentInputData s))")
   apply simp
  subgoal for parse s s1 s3
    by (auto dest!: payload_shorter readContentHeader_input split: if_splits)
  done

declare zero_free.simps [simp del]

lemma client_loop_payload:
  "currentContentLength s \<noteq> 0 \<Longrightarrow>
   client_loop parse s =
     (case payload parse s of Inl out \<Rightarrow> out | Inr s3 \<Rightarrow> client_loop parse s3)"
  by (subst client_loop_turn) simp

lemma client_loop_header:
  assumes "currentContentLength s = 0" and "readContentHeader s = Inr s1"
    and "currentContentLength s1 \<noteq> 0"
  shows "client_loop parse s = client_loop parse s1"
proof -
  have "client_loop parse s =
      (case payload parse s1 of Inl out \<Rightarrow> out | Inr s3 \<Rightarrow> client_loop parse s3)"
    using assms by (subst client_loop_turn) simp
  also have "\<dots> = client_loop parse s1"
    using assms(3) by (simp add: client_loop_payload)
  finally show ?thesis .
qed

lemma client_loop_idle:
  "currentContentLength s = 0 \<Longrightarrow> readContentHeader s = Inr s1 \<Longrightarrow>
   currentContentLength s1 = 0 \<Longrightarrow> client_loop parse s = Inr s1"
  by (subst client_loop_turn) (simp add: payload_def)

lemma client_loop_framing:
  "currentContentLength s = 0 \<Longrightarrow> readContentHeader s = Inl d \<Longrightarrow> client_loop parse s = Inl d"
  by (subst client_loop_turn) simp

lemma zero_free_payload:
  "currentContentLength s \<noteq> 0 \<Longrightarrow>
   zero_free parse s =
     (case payload parse s of Inl out \<Rightarrow> True | Inr s3 \<Rightarrow> zero_free parse s3)"
  by (subst zero_free.simps) simp

lemma zero_free_header:
  assumes "currentContentLength s = 0" and "readContentHeader s = Inr s1"
    and "currentContentLength s1 \<noteq> 0"
  shows "zero_free parse s = zero_free parse s1"
proof -
  have "zero_free parse s =
      (case payload parse s1 of Inl out \<Rightarrow> True | Inr s3 \<Rightarrow> zero_free parse s3)"
    using assms by (subst zero_free.simps) simp
  also have "\<dots> = zero_free parse s1"
    using assms(3) by (simp add: zero_free_payload)
  finally show ?thesis .
qed

lemma zero_free_idle:
  "currentContentLength s = 0 \<Longrightarrow> readContentHeader s = Inr s1 \<Longrightarrow>
   currentContentLength s1 = 0 \<Longrightarrow>
   zero_free parse s = (\<not> 0 < indexOf (currentInputData s) TWO_CRLF)"
  by (subst zero_free.simps) simp

lemma readContentHeader_shorter:
  assumes "0 < indexOf (currentInputData s) TWO_CRLF" and "readContentHeader s = Inr s1"
  shows "length (currentInputData s1) < length (currentInputData s)"
proof -
  have "nat (indexOf (currentInputData s) TWO_CRLF) + length TWO_CRLF
          \<le> length (currentInputData s)"
    using assms(1) indexOf_bound [of "currentInputData s" TWO_CRLF] by simp
  then show ?thesis
    using assms
    by (auto simp: readContentHeader_def Let_def die_def TWO_CRLF_def split: option.splits)
qed

text \<open>
  The main step. If the loop, run on the buffer with \<open>b\<close> at its end, reads no header
  of length 0, then running it first without \<open>b\<close> and again when \<open>b\<close> has arrived
  comes to the same.
\<close>

lemma pieces_step:
  "zero_free parse (appended b s) \<Longrightarrow>
   (case client_loop parse s of Inl d \<Rightarrow> Inl d | Inr t \<Rightarrow> client_loop parse (appended b t)) =
     client_loop parse (appended b s) \<and>
   (\<forall>t. client_loop parse s = Inr t \<longrightarrow> zero_free parse (appended b t))"
proof (induction "length (currentInputData s)" arbitrary: s rule: less_induct)
  case less
  note Z = less.prems
  show ?case
  proof (cases "currentContentLength s = 0")
    case header: True
    then have header': "currentContentLength (appended b s) = 0" by simp
    show ?thesis
    proof (cases "0 < indexOf (currentInputData s) TWO_CRLF")
      case False
      then have "readContentHeader s = Inr s" by (rule readContentHeader_idle)
      with header have "client_loop parse s = Inr s" by (rule client_loop_idle) (rule header)
      with Z show ?thesis by simp
    next
      case found: True
      note app = readContentHeader_appended [OF found, of b]
      show ?thesis
      proof (cases "readContentHeader s")
        case (Inl d)
        with app have "readContentHeader (appended b s) = Inl d" by simp
        with header' have "client_loop parse (appended b s) = Inl d"
          by (rule client_loop_framing)
        moreover from header Inl have "client_loop parse s = Inl d"
          by (rule client_loop_framing)
        ultimately show ?thesis by simp
      next
        case (Inr s1)
        with app have app1: "readContentHeader (appended b s) = Inr (appended b s1)" by simp
        show ?thesis
        proof (cases "currentContentLength s1 = 0")
          case True
          then have "currentContentLength (appended b s1) = 0" by simp
          with header' app1
          have "zero_free parse (appended b s) =
                  (\<not> 0 < indexOf (currentInputData (appended b s)) TWO_CRLF)"
            by (rule zero_free_idle)
          moreover have "indexOf (currentInputData (appended b s)) TWO_CRLF =
                           indexOf (currentInputData s) TWO_CRLF"
            using found by (simp add: indexOf_append)
          ultimately show ?thesis using Z found by simp
        next
          case False
          then have nz: "currentContentLength (appended b s1) \<noteq> 0" by simp
          have shorter: "length (currentInputData s1) < length (currentInputData s)"
            using found Inr by (rule readContentHeader_shorter)
          have c: "client_loop parse s = client_loop parse s1"
            using header Inr False by (rule client_loop_header)
          have c': "client_loop parse (appended b s) = client_loop parse (appended b s1)"
            using header' app1 nz by (rule client_loop_header)
          have z': "zero_free parse (appended b s) = zero_free parse (appended b s1)"
            using header' app1 nz by (rule zero_free_header)
          from less.hyps [OF shorter] Z z' show ?thesis by (simp add: c c')
        qed
      qed
    qed
  next
    case body: False
    then have body': "currentContentLength (appended b s) \<noteq> 0" by simp
    note c = client_loop_payload [OF body, of parse]
    note c' = client_loop_payload [OF body', of parse]
    note z' = zero_free_payload [OF body', of parse]
    show ?thesis
    proof (cases "payload parse s")
      case (Inr s3)
      then have p': "payload parse (appended b s) = Inr (appended b s3)"
        by (rule payload_appended)
      from Inr have shorter: "length (currentInputData s3) < length (currentInputData s)"
        by (rule payload_shorter)
      from Z have "zero_free parse (appended b s3)" by (simp add: z' p')
      from less.hyps [OF shorter this] show ?thesis by (simp add: c c' Inr p')
    next
      case (Inl out)
      show ?thesis
      proof (cases "length (currentInputData s) < currentContentLength s")
        case True
        with Inl body have "out = Inr s" by (simp add: payload_def)
        with Inl have "client_loop parse s = Inr s" by (simp add: c)
        with Z show ?thesis by simp
      next
        case False
        then have "currentContentLength s \<le> length (currentInputData s)" by simp
        from payload_appended_done [OF Inl body this, of b]
        obtain d where "payload parse (appended b s) = Inl out" "out = Inl d" by blast
        with Inl show ?thesis by (simp add: c c')
      qed
    qed
  qed
qed

lemma appended_appended: "appended b (appended a s) = appended (a @ b) s"
  by (simp add: appended_def)

text \<open>Several reads, given by the text each of them decodes to.\<close>

fun feed_all :: "(jsstring \<Rightarrow> request option) \<Rightarrow> jsstring list \<Rightarrow> outcome \<Rightarrow> outcome" where
  "feed_all parse [] out = out"
| "feed_all parse (t # ts) (Inl d) = Inl d"
| "feed_all parse (t # ts) (Inr s) = feed_all parse ts (client_loop parse (appended t s))"

lemma feed_all_dead: "feed_all parse ts (Inl d) = Inl d"
  by (cases ts) simp_all

lemma pieces:
  "zero_free parse (appended (concat (t # ts)) s) \<Longrightarrow>
   feed_all parse (t # ts) (Inr s) = client_loop parse (appended (concat (t # ts)) s)"
proof (induction ts arbitrary: t s)
  case Nil
  then show ?case by simp
next
  case (Cons u us)
  let ?b = "concat (u # us)"
  from Cons.prems have z: "zero_free parse (appended ?b (appended t s))"
    by (simp add: appended_appended)
  note step = pieces_step [OF z]
  show ?case
  proof (cases "client_loop parse (appended t s)")
    case (Inl d)
    with step have e: "client_loop parse (appended (concat (t # u # us)) s) = Inl d"
      by (simp add: appended_appended)
    have "feed_all parse (t # u # us) (Inr s) = feed_all parse (u # us) (Inl d)"
      by (simp only: feed_all.simps Inl)
    then show ?thesis by (simp only: e feed_all_dead)
  next
    case (Inr t')
    with step have "zero_free parse (appended ?b t')" by simp
    from Cons.IH [OF this] step Inr show ?thesis by (simp add: appended_appended)
  qed
qed

lemma processClientMessage_appended:
  "processClientMessage parse chunk s = client_loop parse (appended (toString chunk) s)"
  by (simp add: processClientMessage_def appended_def)

lemma run_client_data:
  "run P (map ClientData chunks) out = feed_all (parse_request P) (map toString chunks) out"
proof (induction chunks arbitrary: out)
  case Nil
  then show ?case by simp
next
  case (Cons c cs)
  show ?case
  proof (cases out)
    case (Inl d)
    then show ?thesis by simp
  next
    case (Inr s)
    have "run P (map ClientData (c # cs)) (Inr s) =
            run P (map ClientData cs) (client_loop (parse_request P) (appended (toString c) s))"
      by (simp add: processClientMessage_def appended_def)
    also have "\<dots> = feed_all (parse_request P) (map toString (c # cs)) (Inr s)"
      by (simp add: Cons.IH)
    finally show ?thesis by (simp only: Inr)
  qed
qed

text \<open>Bytes below 128 decode to themselves, one by one, wherever the chunks part.\<close>

lemma utf8_decode_ascii: "\<forall>b \<in> set bs. b < 128 \<Longrightarrow> utf8_decode bs = bs"
  by (induction bs) simp_all

lemma toString_ascii: "\<forall>b \<in> set chunk. b < 128 \<Longrightarrow> toString chunk = map unat chunk"
proof -
  assume a: "\<forall>b \<in> set chunk. b < 128"
  have "\<forall>n \<in> set (map unat chunk). n < 128"
  proof
    fix n assume "n \<in> set (map unat chunk)"
    then obtain b where b: "b \<in> set chunk" "n = unat b" by auto
    with a have "b < 128" by simp
    then have "unat b < unat (128 :: 8 word)" by (simp only: word_less_nat_alt)
    with b show "n < 128" by simp
  qed
  then show ?thesis by (simp add: toString_def utf8_decode_ascii)
qed

lemma toString_concat_ascii:
  "\<forall>c \<in> set chunks. \<forall>b \<in> set c. b < 128 \<Longrightarrow>
   toString (concat chunks) = concat (map toString chunks)"
proof -
  assume a: "\<forall>c \<in> set chunks. \<forall>b \<in> set c. b < 128"
  then have "\<forall>b \<in> set (concat chunks). b < 128" by auto
  then have "toString (concat chunks) = map unat (concat chunks)" by (rule toString_ascii)
  also have "\<dots> = concat (map (map unat) chunks)" by (simp add: map_concat)
  also have "map (map unat) chunks = map toString chunks"
    using a by (simp add: toString_ascii)
  finally show ?thesis .
qed

text \<open>
  For bytes below 128, and when no header of length 0 is read, the reads of a stream in
  any number of chunks leave the wrapper where the one read of all the bytes leaves it,
  with the same effects in the same order.
\<close>

lemma ascii_chunks_as_one_read:
  assumes "chunks \<noteq> []" and "\<forall>c \<in> set chunks. \<forall>b \<in> set c. b < 128"
    and "zero_free (parse_request P) (appended (toString (concat chunks)) s)"
  shows "run P (map ClientData chunks) (Inr s) = run P [ClientData (concat chunks)] (Inr s)"
proof -
  from assms(1) obtain c cs where chunks: "chunks = c # cs" by (cases chunks) auto
  have dec: "toString (concat chunks) = concat (map toString chunks)"
    using assms(2) by (rule toString_concat_ascii)
  then have dec': "toString (c @ concat cs) = toString c @ concat (map toString cs)"
    by (simp add: chunks)
  have "run P (map ClientData chunks) (Inr s) =
          feed_all (parse_request P) (toString c # map toString cs) (Inr s)"
    using run_client_data [of P "c # cs" "Inr s"] by (simp only: chunks list.map)
  also have "\<dots> = client_loop (parse_request P)
                      (appended (concat (toString c # map toString cs)) s)"
    using assms(3) by (intro pieces) (simp add: dec' chunks)
  also have "\<dots> = run P [ClientData (concat chunks)] (Inr s)"
    by (simp add: processClientMessage_def appended_def dec' chunks)
  finally show ?thesis .
qed

text \<open>An instance: the frame of a \<^verbatim>\<open>threads\<close> request, split inside its payload.\<close>

lemma framed_threads_zero_free:
  "zero_free example_parse
     (appended (js ''Content-Length: 3'' @ [13, 10, 13, 10] @ js ''{T}'') debug)"
  apply (subst zero_free.simps)
  apply (simp add: appended_def readContentHeader_def Let_def indexOf_def TWO_CRLF_def
      CONTENT_LENGTH_def js_def is_digit_def digits_value_def debug_def init_def emit_def
      payload_def example_parse_def dispatch_buffers lifecycle_def threads_request_def)
  apply (subst zero_free.simps)
  apply (simp add: readContentHeader_def Let_def indexOf_Nil TWO_CRLF_def)
  done

lemma framed_threads_text:
  "toString (concat [ascii ''Content-Length: 3'' @ [13, 10, 13, 10, 123], ascii ''T}'']) =
     js ''Content-Length: 3'' @ [13, 10, 13, 10] @ js ''{T}''"
  by (simp add: toString_def ascii_def js_def)

lemma split_ascii_frame:
  "run example_platform
     [ClientData (ascii ''Content-Length: 3'' @ [13, 10, 13, 10, 123]), ClientData (ascii ''T}'')]
     (Inr debug) =
   run example_platform [ClientData (client_frame ''{T}'')] (Inr debug)"
proof -
  have small: "\<forall>c \<in> set [ascii ''Content-Length: 3'' @ [13, 10, 13, 10, 123], ascii ''T}''].
                 \<forall>b \<in> set c. b < 128"
    by (simp add: ascii_def)
  have whole: "concat [ascii ''Content-Length: 3'' @ [13, 10, 13, 10, 123], ascii ''T}''] =
                 client_frame ''{T}''"
    by (simp add: client_frame_def ascii_def)
  have "zero_free (parse_request example_platform)
          (appended
             (toString (concat [ascii ''Content-Length: 3'' @ [13, 10, 13, 10, 123], ascii ''T}'']))
             debug)"
    using framed_threads_zero_free
    by (simp only: framed_threads_text example_platform_def platform.simps)
  from ascii_chunks_as_one_read [OF _ small this] show ?thesis
    by (simp only: whole list.map) simp
qed

end
